theory Spec2Isabelle
  imports Main "HOL-Library.Multiset"
begin

section \<open>MediRemind: reminder lifecycle, delivery channels, subscription registry\<close>

text \<open>
  A shallow embedding of the reminder core of the backend: \<^verbatim>\<open>models.py\<close>,
  \<^verbatim>\<open>exceptions.py\<close>, \<^verbatim>\<open>notifications.py\<close> (email), \<^verbatim>\<open>push_notifications.py\<close>,
  \<^verbatim>\<open>worker.py\<close> (the poller) and \<^verbatim>\<open>routers/notifications.py\<close> (the live stream and
  the subscription endpoints).

  Conventions. A table is the list of its rows. The order in which a query with no
  \<^verbatim>\<open>order_by\<close> returns its rows is the store's choice, not the code's, and is a
  parameter of the store. A database session is a
  pair of a working copy and the committed copy. Every exception of the source is a
  value. What the outside world does (the SMTP relay, the push service, the token check)
  is a parameter. Strings are character lists; the non-ASCII literals of the source (the
  pill sign, the alarm clock and the long dash) are written as their UTF-8 bytes, and
  \<^verbatim>\<open>str.lower\<close> is modelled on the letters A to Z.
\<close>

subsection \<open>Python strings\<close>

definition lower_char :: "char \<Rightarrow> char" where
  "lower_char c =
     (case map_of (zip ''ABCDEFGHIJKLMNOPQRSTUVWXYZ'' ''abcdefghijklmnopqrstuvwxyz'') c of
        None \<Rightarrow> c
      | Some l \<Rightarrow> l)"

definition lower :: "string \<Rightarrow> string" where
  "lower s = map lower_char s"

text \<open>\<^verbatim>\<open>s.startswith(p)\<close>\<close>

fun startswith :: "string \<Rightarrow> string \<Rightarrow> bool" where
  "startswith s [] = True"
| "startswith [] (p # ps) = False"
| "startswith (c # s) (p # ps) = (c = p \<and> startswith s ps)"

text \<open>\<^verbatim>\<open>p in s\<close> on strings: \<open>p\<close> occurs in \<open>s\<close> as a contiguous run.\<close>

fun str_in :: "string \<Rightarrow> string \<Rightarrow> bool" where
  "str_in p [] = (p = [])"
| "str_in p (c # s) = (startswith (c # s) p \<or> str_in p s)"

text \<open>\<^verbatim>\<open>x or d\<close> for a nullable string \<open>x\<close>: \<^verbatim>\<open>None\<close> and the empty string are false.\<close>

fun or_else :: "string option \<Rightarrow> string \<Rightarrow> string" where
  "or_else None d = d"
| "or_else (Some s) d = (if s = [] then d else s)"

subsection \<open>exceptions.py\<close>

text \<open>
  \<^verbatim>\<open>MediRemindException\<close> carries \<^verbatim>\<open>message\<close> and \<^verbatim>\<open>details\<close>; the two subclasses
  used by the core build the message in their constructor. Each sender raises only its
  own class, so each class is a type of its own and the sender's result type names it.
  \<^verbatim>\<open>AttributeError\<close> is what Python raises on \<^verbatim>\<open>None.user\<close>.
\<close>

datatype EmailDeliveryError = EmailDeliveryError string "string option"

datatype PushNotificationError = PushNotificationError string "string option"

datatype python_error = AttributeError

definition new_EmailDeliveryError :: "string \<Rightarrow> string option \<Rightarrow> EmailDeliveryError" where
  "new_EmailDeliveryError recipient details =
     EmailDeliveryError (''Failed to deliver email to '' @ recipient) details"

definition new_PushNotificationError :: "string \<Rightarrow> string option \<Rightarrow> PushNotificationError" where
  "new_PushNotificationError ep details =
     PushNotificationError (''Failed to send push to '' @ take 50 ep @ ''...'') details"

text \<open>\<^verbatim>\<open>MediRemindException.__str__\<close>\<close>

definition str_message :: "string \<Rightarrow> string option \<Rightarrow> string" where
  "str_message message details =
     (case details of
        None \<Rightarrow> message
      | Some d \<Rightarrow> if d = [] then message else message @ '' | Details: '' @ d)"

fun str_email_error :: "EmailDeliveryError \<Rightarrow> string" where
  "str_email_error (EmailDeliveryError message details) = str_message message details"

fun str_push_error :: "PushNotificationError \<Rightarrow> string" where
  "str_push_error (PushNotificationError message details) = str_message message details"

subsection \<open>Effects\<close>

text \<open>
  JSON values, for the payload dictionaries the code hands to \<^verbatim>\<open>json.dumps\<close>; a
  dictionary is the list of its items in the order written.
\<close>

datatype json = JNull | JBool bool | JInt int | JStr string | JObj "(string \<times> json) list"

text \<open>
  What a run does to the outside: the requests handed to the push library (endpoint,
  the two keys, payload), the SMTP sessions opened (recipient, subject, body), and, of
  the log, the lines of a mocked delivery and the lines by which the poller reports the
  outcome of a send (email sent, email failed, push failed). The other lines of the log
  are not recorded.
\<close>

datatype effect =
    Logged string
  | WebPush string string string json
  | SMTP string string string

subsection \<open>notifications.py: email\<close>

record SMTPConfig =
  server :: string
  port :: int
  username :: string
  password :: string
  from_email :: string

definition smtp_is_configured :: "SMTPConfig \<Rightarrow> bool" where
  "smtp_is_configured c = (username c \<noteq> [] \<and> password c \<noteq> [])"

text \<open>
  The outcome of one SMTP session (\<^verbatim>\<open>starttls\<close>, \<^verbatim>\<open>login\<close>, \<^verbatim>\<open>send_message\<close>): sent, or
  one of the exceptions \<^verbatim>\<open>_send_smtp_email\<close> distinguishes, each with its \<^verbatim>\<open>str(e)\<close>.
\<close>

datatype smtp_outcome =
    SMTPSent
  | SMTPAuthenticationError string
  | SMTPRecipientsRefused string
  | SMTPException string
  | SMTPOtherException string

definition mock_send_email :: "string \<Rightarrow> string \<Rightarrow> string \<Rightarrow> effect list" where
  "mock_send_email to_email subject body =
     [Logged (replicate 50 CHR ''=''),
      Logged (''[MOCK EMAIL] To: '' @ to_email),
      Logged (''Subject: '' @ subject),
      Logged (if length body > 200 then ''Body: '' @ take 200 body @ ''...''
              else ''Body: '' @ body),
      Logged (replicate 50 CHR ''='')]"

definition send_smtp_email ::
  "(string \<Rightarrow> string \<Rightarrow> string \<Rightarrow> smtp_outcome) \<Rightarrow> string \<Rightarrow> string \<Rightarrow> string
     \<Rightarrow> (EmailDeliveryError + bool) \<times> effect list" where
  "send_smtp_email relay to_email subject body =
     ((case relay to_email subject body of
         SMTPSent \<Rightarrow> Inr True
       | SMTPAuthenticationError e \<Rightarrow>
           Inl (new_EmailDeliveryError to_email (Some ''Authentication failed''))
       | SMTPRecipientsRefused e \<Rightarrow>
           Inl (new_EmailDeliveryError to_email (Some ''Recipient refused''))
       | SMTPException e \<Rightarrow> Inl (new_EmailDeliveryError to_email (Some e))
       | SMTPOtherException e \<Rightarrow> Inl (new_EmailDeliveryError to_email (Some e))),
      [SMTP to_email subject body])"

definition send_email ::
  "SMTPConfig \<Rightarrow> (string \<Rightarrow> string \<Rightarrow> string \<Rightarrow> smtp_outcome) \<Rightarrow> string \<Rightarrow> string \<Rightarrow> string
     \<Rightarrow> (EmailDeliveryError + bool) \<times> effect list" where
  "send_email cfg relay to_email subject body =
     (if \<not> smtp_is_configured cfg then (Inr True, mock_send_email to_email subject body)
      else send_smtp_email relay to_email subject body)"

subsection \<open>models.py\<close>

datatype ReminderStatus = PENDING | DUE | SENT | TAKEN | SKIPPED

record Medication =
  med_id :: nat
  name :: string
  dosage :: string
  instructions :: "string option"
  priority :: string
  med_user_id :: "nat option"

record Reminder =
  rem_id :: nat
  medication_id :: "nat option"
  scheduled_time :: int
  status :: ReminderStatus

record User =
  user_id :: nat
  email :: "string option"
  email_notifications :: bool

record PushSubscription =
  sub_id :: nat
  sub_user_id :: nat
  endpoint :: string
  p256dh_key :: string
  auth_key :: string

text \<open>
  The store: its four tables and, for each of the two queries on reminders that the
  core makes with no \<^verbatim>\<open>order_by\<close>, the order in which the engine returns the rows. That
  order comes from the access path the engine takes for the query (an index such as the
  one \<^verbatim>\<open>models.py\<close> declares on \<^verbatim>\<open>scheduled_time\<close>, or the primary key); it is given
  here as a key on rows, and a query returns its rows by ascending key, rows of equal key
  in the order of the table.
\<close>

record db =
  reminders :: "Reminder list"
  medications :: "Medication list"
  users :: "User list"
  push_subscriptions :: "PushSubscription list"
  poller_path :: "Reminder \<Rightarrow> int"
  stream_path :: "Reminder \<Rightarrow> int"

text \<open>The relationships \<^verbatim>\<open>reminder.medication\<close> and \<^verbatim>\<open>medication.user\<close>: a lookup
  through the foreign key, \<^verbatim>\<open>None\<close> when the key is null or dangling.\<close>

definition reminder_medication :: "db \<Rightarrow> Reminder \<Rightarrow> Medication option" where
  "reminder_medication d r =
     (case medication_id r of
        None \<Rightarrow> None
      | Some mid \<Rightarrow> find (\<lambda>m. med_id m = mid) (medications d))"

definition medication_user :: "db \<Rightarrow> Medication \<Rightarrow> User option" where
  "medication_user d m =
     (case med_user_id m of
        None \<Rightarrow> None
      | Some uid \<Rightarrow> find (\<lambda>u. user_id u = uid) (users d))"

text \<open>Assigning \<^verbatim>\<open>reminder.status\<close> writes the row with the reminder's primary key.\<close>

definition set_status :: "nat \<Rightarrow> ReminderStatus \<Rightarrow> db \<Rightarrow> db" where
  "set_status rid st d =
     d\<lparr>reminders := map (\<lambda>r. if rem_id r = rid then r\<lparr>status := st\<rparr> else r) (reminders d)\<rparr>"

text \<open>\<^verbatim>\<open>db.delete(sub)\<close> removes the row with the subscription's primary key.\<close>

definition delete_subscription :: "PushSubscription \<Rightarrow> db \<Rightarrow> db" where
  "delete_subscription sub d =
     d\<lparr>push_subscriptions := filter (\<lambda>s. sub_id s \<noteq> sub_id sub) (push_subscriptions d)\<rparr>"

subsection \<open>The database session\<close>

record session =
  working :: db
  committed :: db

definition open_session :: "db \<Rightarrow> session" where
  "open_session d = \<lparr>working = d, committed = d\<rparr>"

definition commit :: "session \<Rightarrow> session" where
  "commit s = s\<lparr>committed := working s\<rparr>"

definition rollback :: "session \<Rightarrow> session" where
  "rollback s = s\<lparr>working := committed s\<rparr>"

subsection \<open>push_notifications.py\<close>

record VAPIDConfig =
  public_key :: string
  private_key :: string
  mailto :: string
  private_key_path :: string

definition vapid_is_configured :: "VAPIDConfig \<Rightarrow> bool" where
  "vapid_is_configured c =
     ((public_key c \<noteq> [] \<and> private_key c \<noteq> []) \<or> private_key_path c \<noteq> [])"

text \<open>
  The outcome of the library call \<^verbatim>\<open>webpush(...)\<close>: delivered; a \<^verbatim>\<open>WebPushException\<close>
  with the status code of its response when \<^verbatim>\<open>e.response\<close> is true in the test
  \<^verbatim>\<open>e.response and e.response.status_code == 410\<close> (\<open>None\<close> otherwise) and its
  \<^verbatim>\<open>str(e)\<close>; or any other exception with its \<^verbatim>\<open>str(e)\<close>.
\<close>

datatype webpush_outcome =
    Delivered
  | WebPushException "nat option" string
  | OtherException string

type_synonym push_service = "string \<Rightarrow> string \<Rightarrow> string \<Rightarrow> (string \<times> json) list \<Rightarrow> webpush_outcome"

definition push_payload ::
  "string \<Rightarrow> string \<Rightarrow> string option \<Rightarrow> string option \<Rightarrow> string option \<Rightarrow> (string \<times> json) list" where
  "push_payload title body icon url tag =
     [(''title'', JStr title),
      (''body'', JStr body),
      (''icon'', JStr (or_else icon ''/icons/pill-icon.png'')),
      (''badge'', JStr ''/icons/badge.png''),
      (''tag'', JStr (or_else tag ''medication-reminder'')),
      (''data'', JObj [(''url'', JStr (or_else url ''/''))])]"

definition send_push_notification ::
  "VAPIDConfig \<Rightarrow> push_service \<Rightarrow> string \<Rightarrow> string \<Rightarrow> string \<Rightarrow> string \<Rightarrow> string
     \<Rightarrow> string option \<Rightarrow> string option \<Rightarrow> string option
     \<Rightarrow> (PushNotificationError + bool) \<times> effect list" where
  "send_push_notification vapid service ep p256dh auth title body icon url tag =
     (if \<not> vapid_is_configured vapid then
        (Inr False, [Logged ''VAPID keys not configured - skipping push notification'',
                     Logged (''[MOCK PUSH] Title: '' @ title @ '', Body: '' @ body)])
      else
        let payload = push_payload title body icon url tag in
        ((case service ep p256dh auth payload of
            Delivered \<Rightarrow> Inr True
          | WebPushException response e \<Rightarrow>
              if response = Some 410 then
                Inl (new_PushNotificationError ep (Some ''Subscription expired''))
              else if response = Some 404 then
                Inl (new_PushNotificationError ep (Some ''Subscription not found''))
              else Inl (new_PushNotificationError ep (Some e))
          | OtherException e \<Rightarrow> Inl (new_PushNotificationError ep (Some e))),
         [WebPush ep p256dh auth (JObj payload)]))"

subsection \<open>worker.py: the poller\<close>

text \<open>Decimal rendering of an identifier in an f-string.\<close>

function str_nat :: "nat \<Rightarrow> string" where
  "str_nat n =
     (if n < 10 then [''0123456789'' ! n]
      else str_nat (n div 10) @ [''0123456789'' ! (n mod 10)])"
  by pat_completeness auto
termination
  by (relation "measure id") auto

declare str_nat.simps [simp del]

text \<open>The outside world of one run: both configurations and both transports.\<close>

record env =
  smtp_config :: SMTPConfig
  smtp_relay :: "string \<Rightarrow> string \<Rightarrow> string \<Rightarrow> smtp_outcome"
  vapid_config :: VAPIDConfig
  push_service :: push_service

definition get_user_push_subscriptions :: "db \<Rightarrow> nat \<Rightarrow> PushSubscription list" where
  "get_user_push_subscriptions d uid = filter (\<lambda>s. sub_user_id s = uid) (push_subscriptions d)"

definition push_title :: "Medication \<Rightarrow> string" where
  "push_title m = [CHR 0xF0, CHR 0x9F, CHR 0x92, CHR 0x8A] @ '' '' @ name m"

definition push_body :: "Medication \<Rightarrow> string" where
  "push_body m =
     ''Time to take '' @ dosage m @ '' - '' @ or_else (instructions m) ''Take as directed''"

definition push_tag :: "Medication \<Rightarrow> string" where
  "push_tag m = ''med-'' @ str_nat (med_id m)"

text \<open>The test of the \<^verbatim>\<open>except\<close> clause that marks a subscription as expired.\<close>

definition looks_expired :: "PushNotificationError \<Rightarrow> bool" where
  "looks_expired e =
     (str_in ''expired'' (lower (str_push_error e))
      \<or> str_in ''not found'' (lower (str_push_error e)))"

text \<open>
  The \<^verbatim>\<open>for sub in subscriptions\<close> loop of \<^verbatim>\<open>_send_push_to_user\<close>: the success count,
  the expired subscriptions and the effects, in the order of the subscriptions. The
  count goes up whenever \<^verbatim>\<open>send_push_notification\<close> returns, whatever it returns.
\<close>

fun push_each ::
  "env \<Rightarrow> Medication \<Rightarrow> PushSubscription list \<Rightarrow> nat \<times> PushSubscription list \<times> effect list" where
  "push_each e m [] = (0, [], [])"
| "push_each e m (sub # subs) =
     (case send_push_notification (vapid_config e) (push_service e)
             (endpoint sub) (p256dh_key sub) (auth_key sub)
             (push_title m) (push_body m) None (Some ''/medications'') (Some (push_tag m)) of
        (res, ef1) \<Rightarrow>
          (case push_each e m subs of
             (success_count, expired, ef2) \<Rightarrow>
               (case res of
                  Inr _ \<Rightarrow> (Suc success_count, expired, ef1 @ ef2)
                | Inl err \<Rightarrow>
                    (success_count,
                     (if looks_expired err then [sub] else []) @ expired,
                     ef1 @ Logged (''Push notification failed: '' @ str_push_error err) # ef2))))"

definition send_push_to_user ::
  "env \<Rightarrow> session \<Rightarrow> User \<Rightarrow> Medication \<Rightarrow> nat \<times> session \<times> effect list" where
  "send_push_to_user e s user m =
     (let subscriptions = get_user_push_subscriptions (working s) (user_id user) in
      if subscriptions = [] then (0, s, [])
      else
        case push_each e m subscriptions of
          (success_count, expired, ef) \<Rightarrow>
            let s1 = s\<lparr>working := fold delete_subscription expired (working s)\<rparr>;
                s2 = (if expired \<noteq> [] then commit s1 else s1)
            in (success_count, s2, ef))"

definition build_email_body :: "Medication \<Rightarrow> string" where
  \<open>build_email_body m =
     ''\<newline>    <div style="font-family: Arial, sans-serif; max-width: 600px; margin: 0 auto;">''
     @ ''\<newline>        <h2 style="color: #2563eb;">'' @ [CHR 0xE2, CHR 0x8F, CHR 0xB0]
     @ '' Time to take your medication</h2>''
     @ ''\<newline>        <div style="background: #f3f4f6; padding: 20px; border-radius: 8px;">''
     @ ''\<newline>            <p style="font-size: 18px; margin: 0;">''
     @ ''\<newline>                <strong>'' @ name m @ ''</strong> ('' @ dosage m @ '')''
     @ ''\<newline>            </p>''
     @ ''\<newline>            <p style="color: #6b7280; margin-top: 10px;">''
     @ ''\<newline>                '' @ or_else (instructions m) ''Take as directed''
     @ ''\<newline>            </p>''
     @ ''\<newline>        </div>''
     @ ''\<newline>        <p style="color: #9ca3af; font-size: 12px; margin-top: 20px;">''
     @ ''\<newline>            This is an automated reminder from MediRemind.''
     @ ''\<newline>        </p>''
     @ ''\<newline>    </div>''
     @ ''\<newline>    ''\<close>

definition email_subject :: "Medication \<Rightarrow> string" where
  "email_subject m = ''Medication Reminder: '' @ name m"

text \<open>
  The email block of \<^verbatim>\<open>_process_reminder\<close>: nothing unless the user opted in and has
  an address; an \<^verbatim>\<open>EmailDeliveryError\<close> is caught and logged.
\<close>

definition notify_by_email :: "env \<Rightarrow> User \<Rightarrow> Medication \<Rightarrow> effect list" where
  "notify_by_email e user m =
     (case email user of
        None \<Rightarrow> []
      | Some addr \<Rightarrow>
          if email_notifications user \<and> addr \<noteq> [] then
            (case send_email (smtp_config e) (smtp_relay e) addr
                    (email_subject m) (build_email_body m) of
               (Inr _, ef) \<Rightarrow> ef @ [Logged (''Email notification sent to '' @ addr)]
             | (Inl err, ef) \<Rightarrow> ef @ [Logged (''Failed to send email: '' @ str_email_error err)])
          else [])"

text \<open>
  \<^verbatim>\<open>_process_reminder\<close>. \<^verbatim>\<open>medication.user\<close> on a missing medication raises before the
  status is written.
\<close>

definition process_reminder ::
  "env \<Rightarrow> Reminder \<Rightarrow> session \<Rightarrow> (python_error + unit) \<times> session \<times> effect list" where
  "process_reminder e r s =
     (case reminder_medication (working s) r of
        None \<Rightarrow> (Inl AttributeError, s, [])
      | Some m \<Rightarrow>
          let s1 = s\<lparr>working := set_status (rem_id r) DUE (working s)\<rparr> in
          (case medication_user (working s) m of
             None \<Rightarrow> (Inr (), s1, [])
           | Some user \<Rightarrow>
               (case send_push_to_user e s1 user m of
                  (push_count, s2, ef2) \<Rightarrow> (Inr (), s2, notify_by_email e user m @ ef2))))"

text \<open>
  The \<^verbatim>\<open>for reminder in due_reminders\<close> loop of \<^verbatim>\<open>check_reminders\<close>: the exception
  that stopped it if any, the session, the number of reminders processed and the effects.
\<close>

fun process_each ::
  "env \<Rightarrow> Reminder list \<Rightarrow> session \<Rightarrow> python_error option \<times> session \<times> nat \<times> effect list" where
  "process_each e [] s = (None, s, 0, [])"
| "process_each e (r # rs) s =
     (case process_reminder e r s of
        (Inl err, s1, ef1) \<Rightarrow> (Some err, s1, 0, ef1)
      | (Inr _, s1, ef1) \<Rightarrow>
          (case process_each e rs s1 of
             (res, s2, n, ef2) \<Rightarrow> (res, s2, Suc n, ef1 @ ef2)))"

text \<open>
  The poller's query: \<^verbatim>\<open>filter(status == PENDING, scheduled_time <= now).all()\<close>. The
  code asks for no order; the rows come in the order of the store's path for this query.
\<close>

definition due_pending :: "int \<Rightarrow> db \<Rightarrow> Reminder list" where
  "due_pending now d =
     sort_key (poller_path d)
       (filter (\<lambda>r. status r = PENDING \<and> scheduled_time r \<le> now) (reminders d))"

text \<open>
  \<^verbatim>\<open>check_reminders\<close>, one poller tick at time \<open>now\<close> on the committed store: the number
  processed, the store as committed when the session closes, and the effects. An
  exception is caught and the session rolled back to its last commit.
\<close>

definition check_reminders :: "env \<Rightarrow> int \<Rightarrow> db \<Rightarrow> nat \<times> db \<times> effect list" where
  "check_reminders e now d =
     (let due_reminders = due_pending now d in
      if due_reminders \<noteq> [] then
        (case process_each e due_reminders (open_session d) of
           (None, s, n, ef) \<Rightarrow> (n, committed (commit s), ef)
         | (Some err, s, n, ef) \<Rightarrow> (n, committed (rollback s), ef))
      else (0, d, []))"

subsection \<open>routers/notifications.py: the live stream\<close>

text \<open>An event of the feed is the dictionary written after \<^verbatim>\<open>data:\<close>.\<close>

type_synonym event = "(string \<times> json) list"

definition friendly_message :: "Medication \<Rightarrow> string" where
  "friendly_message m =
     ''It'' @ [CHR 0x27] @ ''s time for your '' @ name m @ '' ('' @ dosage m @ '')''
     @ (case instructions m of
          None \<Rightarrow> []
        | Some i \<Rightarrow>
            if i \<noteq> [] \<and> lower i \<notin> set [''test'', ''take as directed'']
            then '' '' @ [CHR 0xE2, CHR 0x80, CHR 0x94] @ '' '' @ i else [])"

definition disclaimer_text :: string where
  "disclaimer_text =
     ''This is an important medication. If you'' @ [CHR 0x27] @ ''ve missed this dose, ''
     @ ''please consult your healthcare provider before adjusting your schedule.''"

text \<open>The dictionary \<^verbatim>\<open>data\<close>; the scheduled time stands for its ISO rendering.\<close>

definition reminder_event :: "Reminder \<Rightarrow> Medication \<Rightarrow> event" where
  "reminder_event r m =
     (let is_high_risk = (priority m = ''HIGH'') in
      [(''id'', JInt (int (rem_id r))),
       (''medicationName'', JStr (name m)),
       (''dosage'', JStr (dosage m)),
       (''instructions'', JStr (or_else (instructions m) ''Take as directed'')),
       (''scheduledTime'', JInt (scheduled_time r)),
       (''message'', JStr (friendly_message m)),
       (''isHighRisk'', JBool is_high_risk),
       (''disclaimer'', if is_high_risk then JStr disclaimer_text else JNull),
       (''actionLabel'', JStr ''Mark as Taken'')])"

text \<open>
  The stream's query: \<^verbatim>\<open>query(Reminder).join(Medication).filter(status == DUE).all()\<close>; the
  inner join keeps the reminders that have a medication. Here too the code asks for no
  order, and the rows come in the order of the store's path for this query.
\<close>

definition due_stream :: "db \<Rightarrow> Reminder list" where
  "due_stream d =
     sort_key (stream_path d)
       (filter (\<lambda>r. status r = DUE \<and> reminder_medication d r \<noteq> None) (reminders d))"

text \<open>
  The \<^verbatim>\<open>for reminder in due_reminders\<close> loop of the generator on the working copy:
  whether it ran to its end, the events yielded, and the working copy.
\<close>

fun stream_each :: "Reminder list \<Rightarrow> db \<Rightarrow> bool \<times> event list \<times> db" where
  "stream_each [] w = (True, [], w)"
| "stream_each (r # rs) w =
     (case reminder_medication w r of
        None \<Rightarrow> (False, [], w)
      | Some med \<Rightarrow>
          (case stream_each rs (set_status (rem_id r) SENT w) of
             (ok, evs, w') \<Rightarrow> (ok, reminder_event r med # evs, w')))"

text \<open>
  One pass of the \<^verbatim>\<open>while True\<close> body on the committed store: the events yielded and
  the store committed. An exception is caught, nothing is committed, and the events
  already yielded stay yielded.
\<close>

definition stream_pass :: "db \<Rightarrow> event list \<times> db" where
  "stream_pass d =
     (let due_reminders = due_stream d in
      if due_reminders \<noteq> [] then
        (case stream_each due_reminders d of
           (True, evs, w) \<Rightarrow> (evs, w)
         | (False, evs, w) \<Rightarrow> (evs, d))
      else ([], d))"

text \<open>The first \<open>n\<close> passes of the loop, which has no exit of its own.\<close>

fun stream_passes :: "nat \<Rightarrow> db \<Rightarrow> event list \<times> db" where
  "stream_passes 0 d = ([], d)"
| "stream_passes (Suc n) d =
     (case stream_pass d of
        (evs1, d1) \<Rightarrow> (case stream_passes n d1 of (evs2, d2) \<Rightarrow> (evs1 @ evs2, d2)))"

text \<open>
  \<^verbatim>\<open>get_current_user_from_token\<close>: \<open>decode\<close> is \<^verbatim>\<open>_decode_jwt_token\<close>, the email of a
  valid token; \<open>None\<close> stands for the \<^verbatim>\<open>HTTPException\<close>.
\<close>

definition get_current_user_from_token ::
  "(string \<Rightarrow> string option) \<Rightarrow> string \<Rightarrow> db \<Rightarrow> User option" where
  "get_current_user_from_token decode token d =
     (case decode token of
        None \<Rightarrow> None
      | Some addr \<Rightarrow> find (\<lambda>u. email u = Some addr) (users d))"

text \<open>
  \<^verbatim>\<open>notification_generator\<close>, observed for \<open>n\<close> passes: the token is checked once, and
  the user it names is not used again.
\<close>

definition unauthorized :: event where
  "unauthorized = [(''error'', JStr ''Unauthorized'')]"

definition notification_generator ::
  "(string \<Rightarrow> string option) \<Rightarrow> string \<Rightarrow> nat \<Rightarrow> db \<Rightarrow> event list \<times> db" where
  "notification_generator decode token n d =
     (case get_current_user_from_token decode token d of
        None \<Rightarrow> ([unauthorized], d)
      | Some user \<Rightarrow> stream_passes n d)"

subsection \<open>routers/notifications.py: the subscription registry\<close>

text \<open>\<^verbatim>\<open>keys.get(k, "")\<close>\<close>

definition get_or_empty :: "(string \<rightharpoonup> string) \<Rightarrow> string \<Rightarrow> string" where
  "get_or_empty keys k = (case keys k of None \<Rightarrow> [] | Some v \<Rightarrow> v)"

text \<open>The primary key the store gives a new row: one more than the largest in use.\<close>

definition fresh_sub_id :: "PushSubscription list \<Rightarrow> nat" where
  "fresh_sub_id rows = Suc (fold max (map sub_id rows) 0)"

text \<open>\<^verbatim>\<open>subscribe\<close>: update the first row with this endpoint, or add a row.\<close>

definition subscribe :: "User \<Rightarrow> string \<Rightarrow> (string \<rightharpoonup> string) \<Rightarrow> db \<Rightarrow> db" where
  "subscribe current_user ep keys d =
     (case find (\<lambda>s. endpoint s = ep) (push_subscriptions d) of
        Some existing \<Rightarrow>
          d\<lparr>push_subscriptions :=
              map (\<lambda>s. if sub_id s = sub_id existing
                        then s\<lparr>sub_user_id := user_id current_user,
                               p256dh_key := get_or_empty keys ''p256dh'',
                               auth_key := get_or_empty keys ''auth''\<rparr>
                        else s)
                  (push_subscriptions d)\<rparr>
      | None \<Rightarrow>
          d\<lparr>push_subscriptions :=
              push_subscriptions d @
              [\<lparr>sub_id = fresh_sub_id (push_subscriptions d),
                sub_user_id = user_id current_user,
                endpoint = ep,
                p256dh_key = get_or_empty keys ''p256dh'',
                auth_key = get_or_empty keys ''auth''\<rparr>]\<rparr>)"

subsection \<open>Example data\<close>

text \<open>
  A small store used to run the definitions: two users, the two medications of the
  test trigger, two pending reminders of which the first row is scheduled later than the
  second, and three subscriptions, two of them the first user's. The poller's query is
  answered through the index on the scheduled time, the stream's query by a scan of the
  table in the order of the primary key.
\<close>

definition by_rowid :: "Reminder \<Rightarrow> int" where
  "by_rowid r = int (rem_id r)"

definition alice :: User where
  "alice = \<lparr>user_id = 1, email = Some ''alice@example.org'', email_notifications = True\<rparr>"

definition bob :: User where
  "bob = \<lparr>user_id = 2, email = Some ''bob@example.org'', email_notifications = False\<rparr>"

definition warfarin :: Medication where
  "warfarin = \<lparr>med_id = 1, name = ''Warfarin'', dosage = ''5mg'',
                instructions = Some ''Do not skip doses.'', priority = ''HIGH'',
                med_user_id = Some 1\<rparr>"

definition vitamin_d :: Medication where
  "vitamin_d = \<lparr>med_id = 2, name = ''Vitamin D'', dosage = ''1000 IU'',
                 instructions = Some ''Take with food.'', priority = ''NORMAL'',
                 med_user_id = Some 2\<rparr>"

definition reminder1 :: Reminder where
  "reminder1 = \<lparr>rem_id = 1, medication_id = Some 1, scheduled_time = 100, status = PENDING\<rparr>"

definition reminder2 :: Reminder where
  "reminder2 = \<lparr>rem_id = 2, medication_id = Some 2, scheduled_time = 50, status = PENDING\<rparr>"

definition phone :: PushSubscription where
  "phone = \<lparr>sub_id = 1, sub_user_id = 1, endpoint = ''https://push.example/phone'',
             p256dh_key = ''K1'', auth_key = ''S1''\<rparr>"

definition laptop :: PushSubscription where
  "laptop = \<lparr>sub_id = 2, sub_user_id = 1, endpoint = ''https://push.example/laptop'',
              p256dh_key = ''K2'', auth_key = ''S2''\<rparr>"

definition tablet :: PushSubscription where
  "tablet = \<lparr>sub_id = 3, sub_user_id = 2, endpoint = ''https://push.example/tablet'',
              p256dh_key = ''K3'', auth_key = ''S3''\<rparr>"

definition example_db :: db where
  "example_db = \<lparr>reminders = [reminder1, reminder2], medications = [warfarin, vitamin_d],
                  users = [alice, bob], push_subscriptions = [phone, laptop, tablet],
                  poller_path = scheduled_time, stream_path = by_rowid\<rparr>"

definition no_smtp :: SMTPConfig where
  "no_smtp = \<lparr>server = ''smtp.gmail.com'', port = 587, username = [], password = [],
               from_email = ''noreply@mediremind.app''\<rparr>"

definition with_smtp :: SMTPConfig where
  "with_smtp = \<lparr>server = ''smtp.gmail.com'', port = 587, username = ''u'', password = ''p'',
                 from_email = ''noreply@mediremind.app''\<rparr>"

definition with_vapid :: VAPIDConfig where
  "with_vapid = \<lparr>public_key = ''PUB'', private_key = ''PRIV'',
                  mailto = ''mailto:admin@mediremind.app'', private_key_path = []\<rparr>"

text \<open>The same store after the poller moved both reminders to DUE.\<close>

definition due_db :: db where
  "due_db = example_db\<lparr>reminders := [reminder1\<lparr>status := DUE\<rparr>, reminder2\<lparr>status := DUE\<rparr>]\<rparr>"

definition relay_down :: "string \<Rightarrow> string \<Rightarrow> string \<Rightarrow> smtp_outcome" where
  "relay_down t s b = SMTPException ''Connection refused''"

definition relay_up :: "string \<Rightarrow> string \<Rightarrow> string \<Rightarrow> smtp_outcome" where
  "relay_up t s b = SMTPSent"

definition all_delivered :: push_service where
  "all_delivered ep k a p = Delivered"

definition laptop_gone :: push_service where
  "laptop_gone ep k a p =
     (if ep = ''https://push.example/laptop'' then WebPushException (Some 410) ''Push failed: 410 Gone''
      else Delivered)"

definition laptop_certificate :: push_service where
  "laptop_certificate ep k a p =
     (if ep = ''https://push.example/laptop'' then OtherException ''certificate has expired''
      else Delivered)"

definition laptop_gone_unread :: push_service where
  "laptop_gone_unread ep k a p =
     (if ep = ''https://push.example/laptop''
      then WebPushException None ''WebPushException: Push failed: 410 Gone''
      else Delivered)"

definition mock_env :: env where
  "mock_env = \<lparr>smtp_config = no_smtp, smtp_relay = relay_up,
                vapid_config = with_vapid, push_service = all_delivered\<rparr>"

definition smtp_env :: env where
  "smtp_env = mock_env\<lparr>smtp_config := with_smtp\<rparr>"

definition gone_env :: env where
  "gone_env = mock_env\<lparr>push_service := laptop_gone\<rparr>"

definition unread_env :: env where
  "unread_env = mock_env\<lparr>push_service := laptop_gone_unread\<rparr>"

definition certificate_env :: env where
  "certificate_env = mock_env\<lparr>push_service := laptop_certificate\<rparr>"

text \<open>The session after the first example reminder was processed once.\<close>

definition once_processed :: session where
  "once_processed = fst (snd (process_reminder mock_env reminder1 (open_session example_db)))"

definition token_of :: "string \<Rightarrow> string option" where
  "token_of t =
     (if t = ''alice-token'' then Some ''alice@example.org''
      else if t = ''bob-token'' then Some ''bob@example.org'' else None)"

subsection \<open>Auxiliary notions\<close>

text \<open>The rows of a reminder table after every row with an identifier in \<open>S\<close> got status \<open>st\<close>.\<close>

definition mark :: "nat set \<Rightarrow> ReminderStatus \<Rightarrow> Reminder list \<Rightarrow> Reminder list" where
  "mark S st rows = map (\<lambda>r. if rem_id r \<in> S then r\<lparr>status := st\<rparr> else r) rows"

text \<open>
  The effects \<open>ef\<close> hold a reminder's deliveries for medication \<open>m\<close> to user \<open>u\<close>: what
  the email block does, and what \<^verbatim>\<open>send_push_notification\<close> does for every subscription
  the user has in the store \<open>d\<close>.
\<close>

definition delivers :: "env \<Rightarrow> User \<Rightarrow> Medication \<Rightarrow> db \<Rightarrow> effect list \<Rightarrow> bool" where
  "delivers e u m d ef =
     (set (notify_by_email e u m) \<subseteq> set ef
      \<and> (\<forall>sub\<in>set (get_user_push_subscriptions d (user_id u)).
            set (snd (send_push_notification (vapid_config e) (push_service e)
                   (endpoint sub) (p256dh_key sub) (auth_key sub)
                   (push_title m) (push_body m) None (Some ''/medications'')
                   (Some (push_tag m))))
            \<subseteq> set ef))"

section \<open>Properties\<close>

text \<open>
  C5. With no SMTP credentials configured (user name or password empty), for every
  recipient, subject and body \<^verbatim>\<open>send_email\<close> returns \<^verbatim>\<open>True\<close>, raises nothing, opens
  no SMTP session whatever the relay would do, and logs the mock entry: the recipient
  line, the subject line and the body line between two rules.
\<close>

theorem send_email_unconfigured_mocks:
  assumes "\<not> smtp_is_configured cfg"
  shows "fst (send_email cfg relay to_email subject body) = Inr True
       \<and> snd (send_email cfg relay to_email subject body) = mock_send_email to_email subject body
       \<and> Logged (''[MOCK EMAIL] To: '' @ to_email)
           \<in> set (snd (send_email cfg relay to_email subject body))
       \<and> Logged (''Subject: '' @ subject) \<in> set (snd (send_email cfg relay to_email subject body))
       \<and> SMTP to_email subject body \<notin> set (snd (send_email cfg relay to_email subject body))"
  using assms by (simp add: send_email_def mock_send_email_def)

theorem send_email_unconfigured_mocks_witness:
  "\<not> smtp_is_configured no_smtp
   \<and> send_email no_smtp relay_down ''a@b.c'' ''Hi'' ''Take it''
     = (Inr True,
        [Logged (replicate 50 CHR ''=''), Logged ''[MOCK EMAIL] To: a@b.c'',
         Logged ''Subject: Hi'', Logged ''Body: Take it'', Logged (replicate 50 CHR ''='')])"
proof -
  have h: "\<not> smtp_is_configured no_smtp"
    by (simp add: smtp_is_configured_def no_smtp_def)
  from send_email_unconfigured_mocks [OF h, of relay_down "''a@b.c''" "''Hi''" "''Take it''"]
  show ?thesis using h by (simp add: mock_send_email_def prod_eq_iff)
qed

subsection \<open>Subscription registry\<close>

lemma filter_key_distinct:
  "distinct (map g xs) \<Longrightarrow> x \<in> set xs \<Longrightarrow> filter (\<lambda>y. g y = g x) xs = [x]"
proof (induction xs)
  case Nil
  then show ?case by simp
next
  case (Cons a xs)
  show ?case
  proof (cases "a = x")
    case True
    with Cons.prems have "g x \<notin> g ` set xs" by simp
    then have "\<forall>y\<in>set xs. g y \<noteq> g x" by (metis imageI)
    then have "filter (\<lambda>y. g y = g x) xs = []" by (simp add: filter_empty_conv)
    with True show ?thesis by simp
  next
    case False
    with Cons.prems have "x \<in> set xs" and "g a \<noteq> g x" by auto
    with Cons show ?thesis by simp
  qed
qed

lemma subscribe_endpoints:
  "map endpoint (push_subscriptions (subscribe u ep keys d)) =
     (if ep \<in> set (map endpoint (push_subscriptions d)) then map endpoint (push_subscriptions d)
      else map endpoint (push_subscriptions d) @ [ep])"
proof (cases "find (\<lambda>s. endpoint s = ep) (push_subscriptions d)")
  case None
  then have "ep \<notin> set (map endpoint (push_subscriptions d))"
    by (auto simp: find_None_iff)
  with None show ?thesis by (simp add: subscribe_def)
next
  case (Some ex)
  then have "ex \<in> set (push_subscriptions d)" "endpoint ex = ep"
    by (auto simp: find_Some_iff)
  then have "ep \<in> set (map endpoint (push_subscriptions d))" by force
  with Some show ?thesis by (simp add: subscribe_def comp_def)
qed

lemma subscribe_row:
  assumes "distinct (map endpoint (push_subscriptions d))"
  shows "\<exists>i. filter (\<lambda>s. endpoint s = ep) (push_subscriptions (subscribe u ep keys d)) =
           [\<lparr>sub_id = i, sub_user_id = user_id u, endpoint = ep,
             p256dh_key = get_or_empty keys ''p256dh'', auth_key = get_or_empty keys ''auth''\<rparr>]"
proof (cases "find (\<lambda>s. endpoint s = ep) (push_subscriptions d)")
  case None
  then have "filter (\<lambda>s. endpoint s = ep) (push_subscriptions d) = []"
    by (auto simp: find_None_iff filter_empty_conv)
  with None show ?thesis by (simp add: subscribe_def)
next
  case (Some ex)
  then have ex: "ex \<in> set (push_subscriptions d)" "endpoint ex = ep"
    by (auto simp: find_Some_iff)
  let ?f = "\<lambda>s. if sub_id s = sub_id ex
                        then s\<lparr>sub_user_id := user_id u,
                               p256dh_key := get_or_empty keys ''p256dh'',
                               auth_key := get_or_empty keys ''auth''\<rparr>
                        else s"
  have "filter (\<lambda>s. endpoint s = ep) (map ?f (push_subscriptions d))
        = map ?f (filter (\<lambda>s. endpoint s = endpoint ex) (push_subscriptions d))"
    using ex(2) by (simp add: filter_map comp_def)
  also have "\<dots> = [?f ex]"
    using filter_key_distinct [OF assms ex(1)] by simp
  finally have "filter (\<lambda>s. endpoint s = ep) (push_subscriptions (subscribe u ep keys d)) = [?f ex]"
    using Some by (simp add: subscribe_def)
  moreover have "?f ex = \<lparr>sub_id = sub_id ex, sub_user_id = user_id u, endpoint = ep,
             p256dh_key = get_or_empty keys ''p256dh'', auth_key = get_or_empty keys ''auth''\<rparr>"
    using ex(2) by simp
  ultimately show ?thesis by (intro exI [of _ "sub_id ex"]) simp
qed

lemma subscribe_length:
  "ep \<in> set (map endpoint (push_subscriptions d)) \<Longrightarrow>
   length (push_subscriptions (subscribe u ep keys d)) = length (push_subscriptions d)"
  using subscribe_endpoints [of u ep keys d] by (metis length_map)

text \<open>
  C7. On a registry whose endpoints are pairwise different (the column is unique),
  registering endpoint E with keys p256dh = A and auth = B for a user and then listing
  that user's subscriptions gives exactly one subscription with endpoint E, and it
  carries A and B. Registering E again with other keys, by any user, leaves the registry
  with the same number of rows and exactly one row for E, which now has the second user
  as owner and the second keys; the endpoints stay pairwise different.
\<close>

theorem subscribe_round_trip:
  assumes uniq: "distinct (map endpoint (push_subscriptions d))"
    and k1: "keys1 ''p256dh'' = Some a1" "keys1 ''auth'' = Some b1"
    and k2: "keys2 ''p256dh'' = Some a2" "keys2 ''auth'' = Some b2"
  shows "map (\<lambda>s. (endpoint s, p256dh_key s, auth_key s))
           (filter (\<lambda>s. endpoint s = ep)
              (get_user_push_subscriptions (subscribe u1 ep keys1 d) (user_id u1)))
         = [(ep, a1, b1)]
       \<and> map (\<lambda>s. (sub_user_id s, endpoint s, p256dh_key s, auth_key s))
           (filter (\<lambda>s. endpoint s = ep)
              (push_subscriptions (subscribe u2 ep keys2 (subscribe u1 ep keys1 d))))
         = [(user_id u2, ep, a2, b2)]
       \<and> length (push_subscriptions (subscribe u2 ep keys2 (subscribe u1 ep keys1 d)))
         = length (push_subscriptions (subscribe u1 ep keys1 d))
       \<and> distinct (map endpoint (push_subscriptions (subscribe u2 ep keys2 (subscribe u1 ep keys1 d))))"
proof -
  let ?d1 = "subscribe u1 ep keys1 d"
  let ?d2 = "subscribe u2 ep keys2 ?d1"
  have in1: "ep \<in> set (map endpoint (push_subscriptions ?d1))"
    using subscribe_endpoints [of u1 ep keys1 d] by (simp split: if_splits)
  have uniq1: "distinct (map endpoint (push_subscriptions ?d1))"
    using subscribe_endpoints [of u1 ep keys1 d] uniq by (simp split: if_splits)
  have uniq2: "distinct (map endpoint (push_subscriptions ?d2))"
    using subscribe_endpoints [of u2 ep keys2 ?d1] uniq1 in1 by simp
  obtain i where r1: "filter (\<lambda>s. endpoint s = ep) (push_subscriptions ?d1) =
           [\<lparr>sub_id = i, sub_user_id = user_id u1, endpoint = ep,
             p256dh_key = get_or_empty keys1 ''p256dh'', auth_key = get_or_empty keys1 ''auth''\<rparr>]"
    using subscribe_row [OF uniq] by blast
  obtain j where r2: "filter (\<lambda>s. endpoint s = ep) (push_subscriptions ?d2) =
           [\<lparr>sub_id = j, sub_user_id = user_id u2, endpoint = ep,
             p256dh_key = get_or_empty keys2 ''p256dh'', auth_key = get_or_empty keys2 ''auth''\<rparr>]"
    using subscribe_row [OF uniq1] by blast
  have "filter (\<lambda>s. endpoint s = ep) (get_user_push_subscriptions ?d1 (user_id u1))
        = filter (\<lambda>s. sub_user_id s = user_id u1)
            (filter (\<lambda>s. endpoint s = ep) (push_subscriptions ?d1))"
    by (simp add: get_user_push_subscriptions_def conj_commute)
  then have c1: "map (\<lambda>s. (endpoint s, p256dh_key s, auth_key s))
           (filter (\<lambda>s. endpoint s = ep) (get_user_push_subscriptions ?d1 (user_id u1)))
         = [(ep, a1, b1)]"
    using r1 k1 by (simp add: get_or_empty_def)
  have c2: "map (\<lambda>s. (sub_user_id s, endpoint s, p256dh_key s, auth_key s))
           (filter (\<lambda>s. endpoint s = ep) (push_subscriptions ?d2)) = [(user_id u2, ep, a2, b2)]"
    using r2 k2 by (simp add: get_or_empty_def)
  from c1 c2 subscribe_length [OF in1] uniq2 show ?thesis by simp
qed

theorem subscribe_round_trip_witness:
  "distinct (map endpoint (push_subscriptions example_db))
   \<and> map (\<lambda>s. (endpoint s, p256dh_key s, auth_key s))
           (filter (\<lambda>s. endpoint s = ''E'')
              (get_user_push_subscriptions
                 (subscribe alice ''E'' [''p256dh'' \<mapsto> ''A'', ''auth'' \<mapsto> ''B''] example_db) 1))
         = [(''E'', ''A'', ''B'')]
   \<and> map (\<lambda>s. (sub_user_id s, endpoint s, p256dh_key s, auth_key s))
           (filter (\<lambda>s. endpoint s = ''E'')
              (push_subscriptions
                 (subscribe bob ''E'' [''p256dh'' \<mapsto> ''C'', ''auth'' \<mapsto> ''D'']
                    (subscribe alice ''E'' [''p256dh'' \<mapsto> ''A'', ''auth'' \<mapsto> ''B''] example_db))))
         = [(2, ''E'', ''C'', ''D'')]"
proof -
  have h: "distinct (map endpoint (push_subscriptions example_db))"
    by (simp add: example_db_def phone_def laptop_def tablet_def)
  from subscribe_round_trip [OF h, of "[''p256dh'' \<mapsto> ''A'', ''auth'' \<mapsto> ''B'']" "''A''" "''B''"
      "[''p256dh'' \<mapsto> ''C'', ''auth'' \<mapsto> ''D'']" "''C''" "''D''" "''E''" alice bob]
  show ?thesis using h by (simp add: alice_def bob_def)
qed

subsection \<open>Marking rows, and one pass of the stream\<close>

lemma mark_empty: "mark {} st rows = rows"
  by (simp add: mark_def)

lemma mark_mark: "mark A st (mark B st rows) = mark (A \<union> B) st rows"
  by (simp add: mark_def)


lemma reminders_set_status: "reminders (set_status i st w) = mark {i} st (reminders w)"
  by (simp add: set_status_def mark_def)

lemma set_status_frame:
  "medications (set_status i st w) = medications w"
  "users (set_status i st w) = users w"
  "push_subscriptions (set_status i st w) = push_subscriptions w"
  by (simp_all add: set_status_def)

lemma reminder_medication_set_status:
  "reminder_medication (set_status i st w) r = reminder_medication w r"
  by (simp add: reminder_medication_def set_status_frame split: option.splits)

lemma stream_each_ok:
  "\<forall>r\<in>set rs. reminder_medication w r \<noteq> None \<Longrightarrow>
   stream_each rs w =
     (True, map (\<lambda>r. reminder_event r (the (reminder_medication w r))) rs,
      w\<lparr>reminders := mark (rem_id ` set rs) SENT (reminders w)\<rparr>)"
proof (induction rs arbitrary: w)
  case Nil
  then show ?case by (simp add: mark_empty)
next
  case (Cons r rs)
  then obtain m where m: "reminder_medication w r = Some m" by auto
  let ?w1 = "set_status (rem_id r) SENT w"
  have "\<forall>x\<in>set rs. reminder_medication ?w1 x \<noteq> None"
    using Cons.prems by (simp add: reminder_medication_set_status)
  from Cons.IH [OF this]
  have "stream_each rs ?w1 =
     (True, map (\<lambda>r. reminder_event r (the (reminder_medication w r))) rs,
      ?w1\<lparr>reminders := mark (rem_id ` set rs) SENT (reminders ?w1)\<rparr>)"
    by (simp add: reminder_medication_set_status)
  moreover have "?w1\<lparr>reminders := mark (rem_id ` set rs) SENT (reminders ?w1)\<rparr>
      = w\<lparr>reminders := mark (rem_id ` set (r # rs)) SENT (reminders w)\<rparr>"
    using mark_mark [of "rem_id ` set rs" SENT "{rem_id r}" "reminders w"]
    by (simp add: set_status_def) (simp add: mark_def)
  ultimately show ?case using m by simp
qed

lemma due_stream_has_medication: "\<forall>r\<in>set (due_stream d). reminder_medication d r \<noteq> None"
  by (simp add: due_stream_def)

lemma stream_pass_eq:
  "stream_pass d =
     (map (\<lambda>r. reminder_event r (the (reminder_medication d r))) (due_stream d),
      d\<lparr>reminders := mark (rem_id ` set (due_stream d)) SENT (reminders d)\<rparr>)"
proof (cases "due_stream d = []")
  case True
  then show ?thesis by (simp add: stream_pass_def mark_empty)
next
  case False
  then show ?thesis
    using stream_each_ok [OF due_stream_has_medication, of d]
    by (simp add: stream_pass_def Let_def)
qed


lemma distinct_key_in_filter:
  assumes "distinct (map f xs)" "x \<in> set xs" "f x \<in> f ` set (filter P xs)"
  shows "P x"
proof -
  from assms(3) obtain y where y: "y \<in> set xs" "P y" "f y = f x" by auto
  from assms(1) have "inj_on f (set xs)" by (simp add: distinct_map)
  with y(1,3) assms(2) have "y = x" by (simp add: inj_on_eq_iff)
  with y(2) show ?thesis by simp
qed

lemma mark_forward:
  assumes "\<forall>x\<in>set rows. rem_id x \<in> S \<longrightarrow> status x = a"
  shows "list_all2 (\<lambda>old new. new = old \<or> (status old = a \<and> new = old\<lparr>status := st\<rparr>))
           rows (mark S st rows)"
  using assms by (simp add: mark_def list_all2_map2 list_all2_same)

lemma stream_pass_forward:
  assumes "distinct (map rem_id (reminders d))"
  shows "list_all2 (\<lambda>old new. new = old \<or> (status old = DUE \<and> new = old\<lparr>status := SENT\<rparr>))
           (reminders d) (reminders (snd (stream_pass d)))"
proof -
  have "\<forall>x\<in>set (reminders d). rem_id x \<in> rem_id ` set (due_stream d) \<longrightarrow> status x = DUE"
  proof (intro ballI impI)
    fix x assume x: "x \<in> set (reminders d)" and mem: "rem_id x \<in> rem_id ` set (due_stream d)"
    from mem have "rem_id x \<in> rem_id ` set (filter
        (\<lambda>r. status r = DUE \<and> reminder_medication d r \<noteq> None) (reminders d))"
      unfolding due_stream_def set_sort .
    with assms x have "status x = DUE \<and> reminder_medication d x \<noteq> None"
      by (rule distinct_key_in_filter)
    then show "status x = DUE" by simp
  qed
  from mark_forward [OF this] show ?thesis by (simp add: stream_pass_eq)
qed



subsection \<open>Due-reminder detection\<close>




subsection \<open>The high-risk disclaimer\<close>

text \<open>
  The push requests the poller makes for the high-risk example medication: the payload
  has the six keys title, body, icon, badge, tag and data, and no disclaimer.
\<close>

theorem high_risk_push_counterexample:
  "priority warfarin = ''HIGH''
   \<and> snd (snd (send_push_to_user mock_env (open_session example_db) alice warfarin))
     = [WebPush ''https://push.example/phone'' ''K1'' ''S1''
          (JObj (push_payload (push_title warfarin) (push_body warfarin) None
                   (Some ''/medications'') (Some ''med-1''))),
        WebPush ''https://push.example/laptop'' ''K2'' ''S2''
          (JObj (push_payload (push_title warfarin) (push_body warfarin) None
                   (Some ''/medications'') (Some ''med-1'')))]
   \<and> map fst (push_payload (push_title warfarin) (push_body warfarin) None
                   (Some ''/medications'') (Some ''med-1''))
     = [''title'', ''body'', ''icon'', ''badge'', ''tag'', ''data'']
   \<and> push_body warfarin = ''Time to take 5mg - Do not skip doses.''"
  by (simp add: send_push_to_user_def get_user_push_subscriptions_def open_session_def
      example_db_def phone_def laptop_def tablet_def alice_def warfarin_def mock_env_def
      send_push_notification_def vapid_is_configured_def with_vapid_def all_delivered_def
      push_tag_def str_nat.simps push_payload_def push_body_def)

text \<open>
  C9, as the code has it. The stream event of a medication with priority HIGH carries
  the disclaimer text, which is not empty, and the high-risk flag; the stream event of a
  medication with any other priority carries a null disclaimer. The push payload has no
  disclaimer key, whatever the medication.
\<close>

theorem disclaimer_only_in_stream:
  "(priority m = ''HIGH'' \<longrightarrow>
      map_of (reminder_event r m) ''disclaimer'' = Some (JStr disclaimer_text)
      \<and> disclaimer_text \<noteq> []
      \<and> map_of (reminder_event r m) ''isHighRisk'' = Some (JBool True))
   \<and> (priority m \<noteq> ''HIGH'' \<longrightarrow>
      map_of (reminder_event r m) ''disclaimer'' = Some JNull)
   \<and> map_of (push_payload title body icon url tag) ''disclaimer'' = None"
  by (simp add: reminder_event_def push_payload_def disclaimer_text_def)

theorem disclaimer_only_in_stream_witness:
  "priority warfarin = ''HIGH''
   \<and> map_of (reminder_event reminder1 warfarin) ''disclaimer'' = Some (JStr disclaimer_text)
   \<and> priority vitamin_d \<noteq> ''HIGH''
   \<and> map_of (reminder_event reminder2 vitamin_d) ''disclaimer'' = Some JNull"
proof -
  have h: "priority warfarin = ''HIGH''" "priority vitamin_d \<noteq> ''HIGH''"
    by (simp_all add: warfarin_def vitamin_d_def)
  from h disclaimer_only_in_stream [of warfarin reminder1]
    disclaimer_only_in_stream [of vitamin_d reminder2]
  show ?thesis by blast
qed

subsection \<open>The live stream and its users\<close>

lemma mark_keeps_status:
  assumes "\<forall>x\<in>set rows. rem_id x = i \<longrightarrow> status x = st"
  shows "\<forall>x\<in>set (mark S st rows). rem_id x = i \<longrightarrow> status x = st"
  using assms by (auto simp: mark_def)

lemma mark_sets_status:
  assumes "i \<in> S"
  shows "\<forall>x\<in>set (mark S st rows). rem_id x = i \<longrightarrow> status x = st"
  using assms by (auto simp: mark_def)

lemma stream_passes_keep_sent:
  assumes "\<forall>x\<in>set (reminders d). rem_id x = i \<longrightarrow> status x = SENT"
  shows "\<forall>x\<in>set (reminders (snd (stream_passes n d))). rem_id x = i \<longrightarrow> status x = SENT"
  using assms
proof (induction n arbitrary: d)
  case 0
  then show ?case by simp
next
  case (Suc n)
  let ?d1 = "snd (stream_pass d)"
  have "\<forall>x\<in>set (reminders ?d1). rem_id x = i \<longrightarrow> status x = SENT"
    using mark_keeps_status [OF Suc.prems] by (simp add: stream_pass_eq)
  from Suc.IH [OF this] show ?case
    by (simp add: stream_pass_eq split: prod.splits)
qed

lemma stream_passes_first_events:
  "set (fst (stream_pass d)) \<subseteq> set (fst (stream_passes (Suc n) d))"
  by (auto split: prod.splits)

lemma stream_covers_due:
  assumes "r \<in> set (reminders d)" "status r = DUE" "reminder_medication d r = Some m"
  shows "reminder_event r m \<in> set (fst (stream_passes (Suc n) d))
       \<and> (\<forall>x\<in>set (reminders (snd (stream_passes (Suc n) d))). rem_id x = rem_id r \<longrightarrow> status x = SENT)"
proof -
  from assms have r: "r \<in> set (due_stream d)" by (simp add: due_stream_def)
  then have "reminder_event r (the (reminder_medication d r)) \<in> set (fst (stream_pass d))"
    by (simp add: stream_pass_eq)
  with assms(3) stream_passes_first_events [of d n]
  have ev: "reminder_event r m \<in> set (fst (stream_passes (Suc n) d))" by auto
  let ?d1 = "snd (stream_pass d)"
  from r have "rem_id r \<in> rem_id ` set (due_stream d)" by simp
  from mark_sets_status [OF this]
  have "\<forall>x\<in>set (reminders ?d1). rem_id x = rem_id r \<longrightarrow> status x = SENT"
    by (simp add: stream_pass_eq)
  from stream_passes_keep_sent [OF this, of n]
  have "\<forall>x\<in>set (reminders (snd (stream_passes (Suc n) d))). rem_id x = rem_id r \<longrightarrow> status x = SENT"
    by (simp split: prod.splits)
  with ev show ?thesis by simp
qed

text \<open>
  C10. The feed does not depend on who opened it. For two tokens that both pass the
  check made once at the start, the generator yields the same events and leaves the same
  store, pass after pass: each pass queries every reminder with status DUE, with no
  condition on the connected user. Every reminder with status DUE that has a medication,
  whoever owns the medication, gets its event in the first pass, and every row with its
  identifier has status SENT afterwards.
\<close>

theorem stream_same_for_every_user:
  assumes "get_current_user_from_token decode t1 d = Some u1"
      and "get_current_user_from_token decode t2 d = Some u2"
  shows "notification_generator decode t1 n d = notification_generator decode t2 n d
       \<and> (\<forall>r\<in>set (reminders d). \<forall>m. status r = DUE \<and> reminder_medication d r = Some m \<longrightarrow>
            reminder_event r m \<in> set (fst (notification_generator decode t1 (Suc n) d))
            \<and> (\<forall>x\<in>set (reminders (snd (notification_generator decode t1 (Suc n) d))).
                  rem_id x = rem_id r \<longrightarrow> status x = SENT))"
proof -
  have g: "\<And>k. notification_generator decode t1 k d = stream_passes k d"
          "\<And>k. notification_generator decode t2 k d = stream_passes k d"
    using assms by (simp_all add: notification_generator_def)
  show ?thesis
    unfolding g using stream_covers_due [of _ d _ n] by blast
qed

theorem stream_same_for_every_user_witness:
  "get_current_user_from_token token_of ''alice-token'' due_db = Some alice
   \<and> get_current_user_from_token token_of ''bob-token'' due_db = Some bob
   \<and> notification_generator token_of ''alice-token'' (Suc 0) due_db
     = notification_generator token_of ''bob-token'' (Suc 0) due_db
   \<and> med_user_id vitamin_d = Some (user_id bob)
   \<and> reminder_event (reminder2\<lparr>status := DUE\<rparr>) vitamin_d
       \<in> set (fst (notification_generator token_of ''alice-token'' (Suc 0) due_db))"
proof -
  have a: "get_current_user_from_token token_of ''alice-token'' due_db = Some alice"
    by (simp add: get_current_user_from_token_def token_of_def due_db_def example_db_def
        alice_def bob_def)
  have b: "get_current_user_from_token token_of ''bob-token'' due_db = Some bob"
    by (simp add: get_current_user_from_token_def token_of_def due_db_def example_db_def
        alice_def bob_def)
  have r: "reminder2\<lparr>status := DUE\<rparr> \<in> set (reminders due_db)"
          "status (reminder2\<lparr>status := DUE\<rparr>) = DUE"
          "reminder_medication due_db (reminder2\<lparr>status := DUE\<rparr>) = Some vitamin_d"
    by (simp_all add: due_db_def example_db_def reminder_medication_def reminder2_def
        warfarin_def vitamin_d_def)
  have o: "med_user_id vitamin_d = Some (user_id bob)"
    by (simp add: vitamin_d_def bob_def)
  have e: "notification_generator token_of ''alice-token'' (Suc 0) due_db
     = notification_generator token_of ''bob-token'' (Suc 0) due_db"
    using stream_same_for_every_user [OF a b, of "Suc 0"] by (rule conjunct1)
  have "\<forall>r\<in>set (reminders due_db). \<forall>m. status r = DUE \<and> reminder_medication due_db r = Some m \<longrightarrow>
            reminder_event r m \<in> set (fst (notification_generator token_of ''alice-token'' (Suc 0) due_db))
            \<and> (\<forall>x\<in>set (reminders (snd (notification_generator token_of ''alice-token'' (Suc 0) due_db))).
                  rem_id x = rem_id r \<longrightarrow> status x = SENT)"
    using stream_same_for_every_user [OF a b, of 0] by (rule conjunct2)
  with r have "reminder_event (reminder2\<lparr>status := DUE\<rparr>) vitamin_d
       \<in> set (fst (notification_generator token_of ''alice-token'' (Suc 0) due_db))"
    by blast
  with a b e o show ?thesis by blast
qed

subsection \<open>Push fan-out\<close>

lemma delete_subscription_frame:
  "reminders (delete_subscription x w) = reminders w"
  "medications (delete_subscription x w) = medications w"
  "users (delete_subscription x w) = users w"
  by (simp_all add: delete_subscription_def)

lemma fold_delete_frame:
  "reminders (fold delete_subscription xs w) = reminders w
   \<and> medications (fold delete_subscription xs w) = medications w
   \<and> users (fold delete_subscription xs w) = users w"
  by (induction xs arbitrary: w) (simp_all add: delete_subscription_frame)

lemma fold_delete_subscriptions:
  "push_subscriptions (fold delete_subscription xs w)
     = filter (\<lambda>s. sub_id s \<notin> sub_id ` set xs) (push_subscriptions w)"
proof (induction xs arbitrary: w)
  case Nil
  show ?case by simp
next
  case (Cons x xs)
  have "push_subscriptions (delete_subscription x w)
          = filter (\<lambda>s. sub_id s \<noteq> sub_id x) (push_subscriptions w)"
    by (simp add: delete_subscription_def)
  with Cons.IH [of "delete_subscription x w"] show ?case
    by (simp add: conj_commute)
qed

lemma send_push_to_user_frame:
  assumes "send_push_to_user e s u m = (c, s', ef)"
  shows "reminders (working s') = reminders (working s)"
    and "medications (working s') = medications (working s)"
    and "users (working s') = users (working s)"
    and "set (push_subscriptions (working s')) \<subseteq> set (push_subscriptions (working s))"
    and "committed s' = committed s \<or> committed s' = working s'"
  using assms
  by (auto simp: send_push_to_user_def Let_def commit_def fold_delete_frame
      fold_delete_subscriptions split: if_splits prod.splits)

lemma push_each_effects:
  assumes "sub \<in> set subs"
  shows "set (snd (send_push_notification (vapid_config e) (push_service e)
             (endpoint sub) (p256dh_key sub) (auth_key sub)
             (push_title m) (push_body m) None (Some ''/medications'') (Some (push_tag m))))
         \<subseteq> set (snd (snd (push_each e m subs)))"
  using assms
proof (induction subs)
  case Nil
  then show ?case by simp
next
  case (Cons a subs)
  show ?case
  proof (cases "sub = a")
    case True
    then show ?thesis by (auto split: prod.splits sum.splits)
  next
    case False
    with Cons have "set (snd (send_push_notification (vapid_config e) (push_service e)
             (endpoint sub) (p256dh_key sub) (auth_key sub)
             (push_title m) (push_body m) None (Some ''/medications'') (Some (push_tag m))))
         \<subseteq> set (snd (snd (push_each e m subs)))" by simp
    then show ?thesis by (auto split: prod.splits sum.splits)
  qed
qed

lemma send_push_to_user_effects:
  assumes "sub \<in> set (get_user_push_subscriptions (working s) (user_id u))"
  shows "set (snd (send_push_notification (vapid_config e) (push_service e)
             (endpoint sub) (p256dh_key sub) (auth_key sub)
             (push_title m) (push_body m) None (Some ''/medications'') (Some (push_tag m))))
         \<subseteq> set (snd (snd (send_push_to_user e s u m)))"
proof -
  from assms have ne: "get_user_push_subscriptions (working s) (user_id u) \<noteq> []" by auto
  have "snd (snd (send_push_to_user e s u m))
        = snd (snd (push_each e m (get_user_push_subscriptions (working s) (user_id u))))"
    using ne by (simp add: send_push_to_user_def Let_def split: prod.splits)
  with push_each_effects [OF assms] show ?thesis by simp
qed


subsection \<open>The poller\<close>

lemma reminder_medication_cong:
  "medications w' = medications w \<Longrightarrow> reminder_medication w' r = reminder_medication w r"
  by (simp add: reminder_medication_def split: option.splits)

lemma medication_user_cong:
  "users w' = users w \<Longrightarrow> medication_user w' m = medication_user w m"
  by (simp add: medication_user_def split: option.splits)

lemma get_user_push_subscriptions_mono:
  "set (push_subscriptions w') \<subseteq> set (push_subscriptions w) \<Longrightarrow>
   set (get_user_push_subscriptions w' uid) \<subseteq> set (get_user_push_subscriptions w uid)"
  by (auto simp: get_user_push_subscriptions_def)

text \<open>What one call of \<open>process_reminder\<close> may change, whether it raises or not.\<close>

lemma process_reminder_frame:
  assumes "process_reminder e r s = (res, s', ef)"
  shows "medications (working s') = medications (working s)"
    and "users (working s') = users (working s)"
    and "set (push_subscriptions (working s')) \<subseteq> set (push_subscriptions (working s))"
    and "reminders (working s') = reminders (working s)
         \<or> reminders (working s') = mark {rem_id r} DUE (reminders (working s))"
    and "committed s' = committed s \<or> committed s' = working s'"
proof -
  show "medications (working s') = medications (working s)"
    using assms
    by (auto simp: process_reminder_def Let_def set_status_frame
        split: option.splits prod.splits dest!: send_push_to_user_frame(2))
  show "users (working s') = users (working s)"
    using assms
    by (auto simp: process_reminder_def Let_def set_status_frame
        split: option.splits prod.splits dest!: send_push_to_user_frame(3))
  show "set (push_subscriptions (working s')) \<subseteq> set (push_subscriptions (working s))"
    using assms
    by (auto simp: process_reminder_def Let_def set_status_frame
        split: option.splits prod.splits dest!: send_push_to_user_frame(4))
  show "reminders (working s') = reminders (working s)
         \<or> reminders (working s') = mark {rem_id r} DUE (reminders (working s))"
    using assms
    by (auto simp: process_reminder_def Let_def reminders_set_status
        split: option.splits prod.splits dest!: send_push_to_user_frame(1))
  show "committed s' = committed s \<or> committed s' = working s'"
    using assms
    by (auto simp: process_reminder_def Let_def
        split: option.splits prod.splits dest!: send_push_to_user_frame(5))
qed

text \<open>A reminder with a medication is processed without an exception.\<close>

lemma process_reminder_ok:
  assumes "reminder_medication (working s) r = Some m"
  shows "\<exists>s' ef. process_reminder e r s = (Inr (), s', ef)
           \<and> reminders (working s') = mark {rem_id r} DUE (reminders (working s))"
  using assms
  by (auto simp: process_reminder_def Let_def reminders_set_status
      split: option.splits prod.splits dest!: send_push_to_user_frame(1))

lemma process_reminder_effects:
  assumes "reminder_medication (working s) r = Some m"
      and "medication_user (working s) m = Some u"
  shows "set (notify_by_email e u m) \<subseteq> set (snd (snd (process_reminder e r s)))"
    and "\<forall>sub\<in>set (get_user_push_subscriptions (working s) (user_id u)).
           set (snd (send_push_notification (vapid_config e) (push_service e)
                  (endpoint sub) (p256dh_key sub) (auth_key sub)
                  (push_title m) (push_body m) None (Some ''/medications'') (Some (push_tag m))))
           \<subseteq> set (snd (snd (process_reminder e r s)))"
proof -
  let ?s1 = "s\<lparr>working := set_status (rem_id r) DUE (working s)\<rparr>"
  have ef: "snd (snd (process_reminder e r s))
        = notify_by_email e u m @ snd (snd (send_push_to_user e ?s1 u m))"
    using assms by (simp add: process_reminder_def Let_def split: prod.splits)
  show "set (notify_by_email e u m) \<subseteq> set (snd (snd (process_reminder e r s)))"
    by (simp add: ef)
  have subs: "get_user_push_subscriptions (working ?s1) (user_id u)
        = get_user_push_subscriptions (working s) (user_id u)"
    by (simp add: get_user_push_subscriptions_def set_status_frame)
  show "\<forall>sub\<in>set (get_user_push_subscriptions (working s) (user_id u)).
           set (snd (send_push_notification (vapid_config e) (push_service e)
                  (endpoint sub) (p256dh_key sub) (auth_key sub)
                  (push_title m) (push_body m) None (Some ''/medications'') (Some (push_tag m))))
           \<subseteq> set (snd (snd (process_reminder e r s)))"
  proof
    fix sub assume "sub \<in> set (get_user_push_subscriptions (working s) (user_id u))"
    then have "sub \<in> set (get_user_push_subscriptions (working ?s1) (user_id u))"
      by (simp only: subs)
    from send_push_to_user_effects [OF this, of e m]
    show "set (snd (send_push_notification (vapid_config e) (push_service e)
                  (endpoint sub) (p256dh_key sub) (auth_key sub)
                  (push_title m) (push_body m) None (Some ''/medications'') (Some (push_tag m))))
           \<subseteq> set (snd (snd (process_reminder e r s)))"
      by (auto simp: ef)
  qed
qed


lemma delivers_mono:
  assumes "delivers e u m d ef"
      and "set (push_subscriptions d') \<subseteq> set (push_subscriptions d)"
      and "set ef \<subseteq> set ef'"
  shows "delivers e u m d' ef'"
proof -
  from assms(2) have "set (get_user_push_subscriptions d' (user_id u))
      \<subseteq> set (get_user_push_subscriptions d (user_id u))"
    by (rule get_user_push_subscriptions_mono)
  with assms(1,3) show ?thesis
    unfolding delivers_def by blast
qed

lemma process_reminder_delivers:
  assumes "reminder_medication (working s) r = Some m"
      and "medication_user (working s) m = Some u"
  shows "delivers e u m (working s) (snd (snd (process_reminder e r s)))"
  unfolding delivers_def
  using process_reminder_effects [OF assms, of e] by blast

text \<open>
  The loop on reminders that all have a medication: no exception, every reminder
  counted, every one marked DUE, and every one delivered to the subscriptions its user
  still has at the end.
\<close>

lemma process_each_ok:
  assumes "\<forall>r\<in>set rs. reminder_medication (working s) r \<noteq> None"
  shows "\<exists>s' ef. process_each e rs s = (None, s', length rs, ef)
     \<and> reminders (working s') = mark (rem_id ` set rs) DUE (reminders (working s))
     \<and> medications (working s') = medications (working s)
     \<and> users (working s') = users (working s)
     \<and> set (push_subscriptions (working s')) \<subseteq> set (push_subscriptions (working s))
     \<and> (\<forall>r\<in>set rs. \<forall>m u.
           reminder_medication (working s) r = Some m \<and> medication_user (working s) m = Some u
           \<longrightarrow> delivers e u m (working s') ef)"
  using assms
proof (induction rs arbitrary: s)
  case Nil
  show ?case by (simp add: mark_empty)
next
  case (Cons r rs)
  from Cons.prems obtain m0 where m0: "reminder_medication (working s) r = Some m0" by auto
  from process_reminder_ok [OF m0, of e] obtain s1 ef1 where
    p1: "process_reminder e r s = (Inr (), s1, ef1)"
    and r1: "reminders (working s1) = mark {rem_id r} DUE (reminders (working s))"
    by blast
  have m1: "medications (working s1) = medications (working s)"
    by (rule process_reminder_frame(1) [OF p1])
  have u1: "users (working s1) = users (working s)"
    by (rule process_reminder_frame(2) [OF p1])
  have b1: "set (push_subscriptions (working s1)) \<subseteq> set (push_subscriptions (working s))"
    by (rule process_reminder_frame(3) [OF p1])
  have lk1: "\<And>x. reminder_medication (working s1) x = reminder_medication (working s) x"
    by (rule reminder_medication_cong) (rule m1)
  have lk2: "\<And>x. medication_user (working s1) x = medication_user (working s) x"
    by (rule medication_user_cong) (rule u1)
  have "\<forall>x\<in>set rs. reminder_medication (working s1) x \<noteq> None"
    unfolding lk1 using Cons.prems by simp
  from Cons.IH [OF this] obtain s2 ef2 where
    ih: "process_each e rs s1 = (None, s2, length rs, ef2)
     \<and> reminders (working s2) = mark (rem_id ` set rs) DUE (reminders (working s1))
     \<and> medications (working s2) = medications (working s1)
     \<and> users (working s2) = users (working s1)
     \<and> set (push_subscriptions (working s2)) \<subseteq> set (push_subscriptions (working s1))
     \<and> (\<forall>r\<in>set rs. \<forall>m u.
           reminder_medication (working s1) r = Some m \<and> medication_user (working s1) m = Some u
           \<longrightarrow> delivers e u m (working s2) ef2)"
    by (elim exE)
  from ih have p2: "process_each e rs s1 = (None, s2, length rs, ef2)" by (elim conjE)
  from ih have r2: "reminders (working s2) = mark (rem_id ` set rs) DUE (reminders (working s1))"
    by (elim conjE)
  from ih have m2: "medications (working s2) = medications (working s1)" by (elim conjE)
  from ih have u2: "users (working s2) = users (working s1)" by (elim conjE)
  from ih have b2: "set (push_subscriptions (working s2)) \<subseteq> set (push_subscriptions (working s1))"
    by (elim conjE)
  from ih have d2: "\<forall>x\<in>set rs. \<forall>m u.
           reminder_medication (working s) x = Some m \<and> medication_user (working s) m = Some u
           \<longrightarrow> delivers e u m (working s2) ef2"
    unfolding lk1 lk2 by (elim conjE)
  have run: "process_each e (r # rs) s = (None, s2, length (r # rs), ef1 @ ef2)"
    using p1 p2 by simp
  have "reminders (working s2) = mark (rem_id ` set rs \<union> {rem_id r}) DUE (reminders (working s))"
    unfolding r2 r1 by (rule mark_mark)
  then have rem: "reminders (working s2)
      = mark (rem_id ` set (r # rs)) DUE (reminders (working s))"
    by simp
  have b: "set (push_subscriptions (working s2)) \<subseteq> set (push_subscriptions (working s))"
    using b2 b1 by (rule subset_trans)
  have del: "\<forall>x\<in>set (r # rs). \<forall>m u.
           reminder_medication (working s) x = Some m \<and> medication_user (working s) m = Some u
           \<longrightarrow> delivers e u m (working s2) (ef1 @ ef2)"
  proof (intro ballI allI impI)
    fix x m u
    assume x: "x \<in> set (r # rs)"
      and mu: "reminder_medication (working s) x = Some m \<and> medication_user (working s) m = Some u"
    show "delivers e u m (working s2) (ef1 @ ef2)"
    proof (cases "x = r")
      case True
      from mu True have "reminder_medication (working s) r = Some m"
        and "medication_user (working s) m = Some u" by simp_all
      then have "delivers e u m (working s) (snd (snd (process_reminder e r s)))"
        by (rule process_reminder_delivers)
      then have "delivers e u m (working s) ef1" unfolding p1 by simp
      then show ?thesis using b by (rule delivers_mono) simp
    next
      case False
      with x have "x \<in> set rs" by simp
      with d2 mu have "delivers e u m (working s2) ef2" by blast
      then show ?thesis by (rule delivers_mono) simp_all
    qed
  qed
  have "process_each e (r # rs) s = (None, s2, length (r # rs), ef1 @ ef2)
     \<and> reminders (working s2) = mark (rem_id ` set (r # rs)) DUE (reminders (working s))
     \<and> medications (working s2) = medications (working s)
     \<and> users (working s2) = users (working s)
     \<and> set (push_subscriptions (working s2)) \<subseteq> set (push_subscriptions (working s))
     \<and> (\<forall>x\<in>set (r # rs). \<forall>m u.
           reminder_medication (working s) x = Some m \<and> medication_user (working s) m = Some u
           \<longrightarrow> delivers e u m (working s2) (ef1 @ ef2))"
    using run rem m2 m1 u2 u1 b del by (intro conjI) (simp_all only:)
  then show ?case by (intro exI)
qed


lemma check_reminders_ok:
  assumes "\<forall>r\<in>set (due_pending now d). reminder_medication d r \<noteq> None"
  shows "\<exists>d' ef. check_reminders e now d = (length (due_pending now d), d', ef)
      \<and> reminders d' = mark (rem_id ` set (due_pending now d)) DUE (reminders d)
      \<and> set (push_subscriptions d') \<subseteq> set (push_subscriptions d)
      \<and> (\<forall>r\<in>set (due_pending now d). \<forall>m u.
            reminder_medication d r = Some m \<and> medication_user d m = Some u
            \<longrightarrow> delivers e u m d' ef)"
proof (cases "due_pending now d = []")
  case True
  then show ?thesis by (simp add: check_reminders_def mark_empty)
next
  case False
  have "\<forall>r\<in>set (due_pending now d). reminder_medication (working (open_session d)) r \<noteq> None"
    using assms by (simp add: open_session_def)
  from process_each_ok [OF this, of e] obtain s' ef where
    ih: "process_each e (due_pending now d) (open_session d)
           = (None, s', length (due_pending now d), ef)
     \<and> reminders (working s')
           = mark (rem_id ` set (due_pending now d)) DUE (reminders (working (open_session d)))
     \<and> medications (working s') = medications (working (open_session d))
     \<and> users (working s') = users (working (open_session d))
     \<and> set (push_subscriptions (working s'))
           \<subseteq> set (push_subscriptions (working (open_session d)))
     \<and> (\<forall>r\<in>set (due_pending now d). \<forall>m u.
           reminder_medication (working (open_session d)) r = Some m
           \<and> medication_user (working (open_session d)) m = Some u
           \<longrightarrow> delivers e u m (working s') ef)"
    by (elim exE)
  have w: "working (open_session d) = d" by (simp add: open_session_def)
  from ih have run: "check_reminders e now d = (length (due_pending now d), working s', ef)"
    using False by (simp add: check_reminders_def Let_def commit_def)
  from ih show ?thesis
    unfolding w run by (intro exI [of _ "working s'"] exI [of _ ef]) simp
qed







subsection \<open>Status moves forward\<close>

lemma map_rem_id_mark: "map rem_id (mark S st rows) = map rem_id rows"
  by (simp add: mark_def comp_def cong: if_cong)

text \<open>
  Whatever the loop of the poller does, and whether it ends by an exception or not, the
  reminders of the working copy and of the committed copy are the initial rows with a
  set of the due identifiers marked DUE.
\<close>

lemma process_each_marks:
  assumes "rem_id ` set rs \<subseteq> S"
      and "\<exists>A\<subseteq>S. reminders (working s) = mark A DUE rows"
      and "\<exists>B\<subseteq>S. reminders (committed s) = mark B DUE rows"
      and "process_each e rs s = (res, s', n, ef)"
  shows "(\<exists>A\<subseteq>S. reminders (working s') = mark A DUE rows)
       \<and> (\<exists>B\<subseteq>S. reminders (committed s') = mark B DUE rows)"
  using assms
proof (induction rs arbitrary: s res s' n ef)
  case Nil
  then show ?case by simp
next
  case (Cons r rs)
  obtain res1 s1 ef1 where p1: "process_reminder e r s = (res1, s1, ef1)"
    by (cases "process_reminder e r s") auto
  from Cons.prems(1) have rS: "rem_id r \<in> S" and rsS: "rem_id ` set rs \<subseteq> S" by auto
  from Cons.prems(2) obtain A where A: "A \<subseteq> S" "reminders (working s) = mark A DUE rows"
    by blast
  have w1: "\<exists>A\<subseteq>S. reminders (working s1) = mark A DUE rows"
  proof -
    from process_reminder_frame(4) [OF p1]
    consider "reminders (working s1) = reminders (working s)"
      | "reminders (working s1) = mark {rem_id r} DUE (reminders (working s))" by blast
    then show ?thesis
    proof cases
      case 1
      with A show ?thesis by auto
    next
      case 2
      then have "reminders (working s1) = mark ({rem_id r} \<union> A) DUE rows"
        by (simp add: A(2) mark_mark)
      moreover have "{rem_id r} \<union> A \<subseteq> S" using rS A(1) by simp
      ultimately show ?thesis by blast
    qed
  qed
  have c1: "\<exists>B\<subseteq>S. reminders (committed s1) = mark B DUE rows"
    using process_reminder_frame(5) [OF p1] w1 Cons.prems(3) by auto
  show ?case
  proof (cases res1)
    case (Inl err)
    with Cons.prems(4) p1 have "s' = s1" by simp
    with w1 c1 show ?thesis by simp
  next
    case (Inr u)
    obtain res2 s2 n2 ef2 where p2: "process_each e rs s1 = (res2, s2, n2, ef2)"
      by (cases "process_each e rs s1") auto
    with Cons.prems(4) p1 Inr have "s' = s2" by simp
    with Cons.IH [OF rsS w1 c1 p2] show ?thesis by simp
  qed
qed

lemma check_reminders_marks:
  "\<exists>B\<subseteq>rem_id ` set (due_pending now d).
      reminders (fst (snd (check_reminders e now d))) = mark B DUE (reminders d)"
proof (cases "due_pending now d = []")
  case True
  then have "reminders (fst (snd (check_reminders e now d))) = mark {} DUE (reminders d)"
    by (simp add: check_reminders_def mark_empty)
  then show ?thesis by blast
next
  case False
  let ?S = "rem_id ` set (due_pending now d)"
  obtain res s' n ef where p: "process_each e (due_pending now d) (open_session d) = (res, s', n, ef)"
    by (cases "process_each e (due_pending now d) (open_session d)") auto
  have i: "\<exists>A\<subseteq>?S. reminders (working (open_session d)) = mark A DUE (reminders d)"
          "\<exists>B\<subseteq>?S. reminders (committed (open_session d)) = mark B DUE (reminders d)"
    by (rule exI [of _ "{}"], simp add: open_session_def mark_empty)+
  from process_each_marks [OF subset_refl i p]
  have w: "\<exists>A\<subseteq>?S. reminders (working s') = mark A DUE (reminders d)"
    and c: "\<exists>B\<subseteq>?S. reminders (committed s') = mark B DUE (reminders d)"
    by simp_all
  show ?thesis
  proof (cases res)
    case None
    with p False have "fst (snd (check_reminders e now d)) = working s'"
      by (simp add: check_reminders_def Let_def commit_def)
    with w show ?thesis by simp
  next
    case (Some err)
    with p False have "fst (snd (check_reminders e now d)) = committed s'"
      by (simp add: check_reminders_def Let_def rollback_def)
    with c show ?thesis by simp
  qed
qed

lemma check_reminders_forward:
  assumes "distinct (map rem_id (reminders d))"
  shows "list_all2 (\<lambda>old new. new = old \<or> (status old = PENDING \<and> new = old\<lparr>status := DUE\<rparr>))
           (reminders d) (reminders (fst (snd (check_reminders e now d))))"
proof -
  from check_reminders_marks [of now d e] obtain B where
    B: "B \<subseteq> rem_id ` set (due_pending now d)"
       "reminders (fst (snd (check_reminders e now d))) = mark B DUE (reminders d)"
    by blast
  have "\<forall>x\<in>set (reminders d). rem_id x \<in> B \<longrightarrow> status x = PENDING"
  proof (intro ballI impI)
    fix x assume x: "x \<in> set (reminders d)" and "rem_id x \<in> B"
    with B(1) have "rem_id x \<in> rem_id ` set (due_pending now d)" by blast
    then have "rem_id x \<in> rem_id ` set (filter
        (\<lambda>r. status r = PENDING \<and> scheduled_time r \<le> now) (reminders d))"
      unfolding due_pending_def set_sort .
    with assms x have "status x = PENDING \<and> scheduled_time x \<le> now"
      by (rule distinct_key_in_filter)
    then show "status x = PENDING" by simp
  qed
  from mark_forward [OF this] show ?thesis by (simp add: B(2))
qed

lemma stream_passes_forward:
  assumes "distinct (map rem_id (reminders d))"
  shows "list_all2 (\<lambda>old new. new = old \<or> (status old = DUE \<and> new = old\<lparr>status := SENT\<rparr>))
           (reminders d) (reminders (snd (stream_passes n d)))"
  using assms
proof (induction n arbitrary: d)
  case 0
  show ?case by (simp add: list_all2_same)
next
  case (Suc n)
  let ?d1 = "snd (stream_pass d)"
  have "map rem_id (reminders ?d1) = map rem_id (reminders d)"
    by (simp add: stream_pass_eq map_rem_id_mark)
  with Suc.prems have "distinct (map rem_id (reminders ?d1))" by simp
  from Suc.IH [OF this]
  have b: "list_all2 (\<lambda>old new. new = old \<or> (status old = DUE \<and> new = old\<lparr>status := SENT\<rparr>))
           (reminders ?d1) (reminders (snd (stream_passes n ?d1)))" .
  have a: "list_all2 (\<lambda>old new. new = old \<or> (status old = DUE \<and> new = old\<lparr>status := SENT\<rparr>))
           (reminders d) (reminders ?d1)"
    using Suc.prems by (rule stream_pass_forward)
  have "list_all2 (\<lambda>old new. new = old \<or> (status old = DUE \<and> new = old\<lparr>status := SENT\<rparr>))
           (reminders d) (reminders (snd (stream_passes n ?d1)))"
    using a b by (rule list_all2_trans [rotated]) auto
  moreover have "snd (stream_passes (Suc n) d) = snd (stream_passes n ?d1)"
    by (simp split: prod.splits)
  ultimately show ?case by simp
qed

text \<open>
  C8. On a store whose reminder identifiers are pairwise different (the primary key), a
  poller tick, whether it completes or is cut short by an exception, leaves every
  reminder row as it was or, when its status was PENDING, as the same row with status
  DUE; and any number of passes of the stream, for a valid token or not, leave every row
  as it was or, when its status was DUE, as the same row with status SENT. So the poller
  writes DUE only over PENDING, the stream writes SENT only over DUE, and no status
  moves back or to TAKEN or SKIPPED.
\<close>

theorem status_only_moves_forward:
  assumes "distinct (map rem_id (reminders d))"
  shows "list_all2 (\<lambda>old new. new = old \<or> (status old = PENDING \<and> new = old\<lparr>status := DUE\<rparr>))
           (reminders d) (reminders (fst (snd (check_reminders e now d))))
       \<and> list_all2 (\<lambda>old new. new = old \<or> (status old = DUE \<and> new = old\<lparr>status := SENT\<rparr>))
           (reminders d) (reminders (snd (notification_generator decode token n d)))"
proof -
  have "list_all2 (\<lambda>old new. new = old \<or> (status old = DUE \<and> new = old\<lparr>status := SENT\<rparr>))
           (reminders d) (reminders (snd (notification_generator decode token n d)))"
  proof (cases "get_current_user_from_token decode token d")
    case None
    then show ?thesis by (simp add: notification_generator_def list_all2_same)
  next
    case (Some u)
    then show ?thesis
      using stream_passes_forward [OF assms, of n] by (simp add: notification_generator_def)
  qed
  with check_reminders_forward [OF assms, of e now] show ?thesis by simp
qed

theorem status_only_moves_forward_witness:
  "distinct (map rem_id (reminders example_db))
   \<and> list_all2 (\<lambda>old new. new = old \<or> (status old = PENDING \<and> new = old\<lparr>status := DUE\<rparr>))
        (reminders example_db) (reminders (fst (snd (check_reminders mock_env 200 example_db))))
   \<and> list_all2 (\<lambda>old new. new = old \<or> (status old = DUE \<and> new = old\<lparr>status := SENT\<rparr>))
        (reminders example_db)
        (reminders (snd (notification_generator token_of ''alice-token'' 3 example_db)))"
proof -
  have h: "distinct (map rem_id (reminders example_db))"
    by (simp add: example_db_def reminder1_def reminder2_def)
  from h status_only_moves_forward [OF h, of mock_env 200 token_of "''alice-token''" 3]
  show ?thesis by (rule conjI)
qed

subsection \<open>Claiming a transition\<close>

lemma set_due_pending:
  "set (due_pending now d)
     = {r \<in> set (reminders d). status r = PENDING \<and> scheduled_time r \<le> now}"
  by (simp add: due_pending_def)

lemma set_due_stream:
  "set (due_stream d)
     = {r \<in> set (reminders d). status r = DUE \<and> reminder_medication d r \<noteq> None}"
  by (simp add: due_stream_def)

lemma due_pending_after_mark:
  assumes "reminders d' = mark S DUE rows"
  shows "rem_id ` set (due_pending now' d') \<inter> S = {}"
  using assms by (auto simp: set_due_pending mark_def)

lemma due_pending_after_tick_empty:
  assumes "reminders d' = mark (rem_id ` set (due_pending now d)) DUE (reminders d)"
  shows "due_pending now d' = []"
proof -
  have "set (due_pending now d') = {}"
    using assms by (auto simp: set_due_pending mark_def)
  then show ?thesis by simp
qed

lemma due_stream_after_pass_empty:
  "due_stream (d\<lparr>reminders := mark (rem_id ` set (due_stream d)) SENT (reminders d)\<rparr>) = []"
proof -
  let ?d1 = "d\<lparr>reminders := mark (rem_id ` set (due_stream d)) SENT (reminders d)\<rparr>"
  have m: "\<And>r rows. reminder_medication (d\<lparr>reminders := rows\<rparr>) r = reminder_medication d r"
    by (rule reminder_medication_cong) simp
  have "set (due_stream ?d1) = {}"
    by (auto simp: set_due_stream m mark_def)
  then show ?thesis by simp
qed

text \<open>
  C1, as the code has it. There is no compare-and-set on a reminder's status: an
  operation writes the new status on the rows its own query returned. Run one after the
  other on a store where every due reminder has its medication, the callers transition a
  reminder at most once. After a poller tick, a second tick at the same time finds
  nothing to process, writes nothing, delivers nothing and leaves the store as it is, and
  the query of a tick at any later time returns no reminder that the first tick
  processed. After one pass of the stream, a second pass yields no event and leaves the
  store as it is.
\<close>

theorem sequential_callers_deliver_once:
  assumes "\<forall>r\<in>set (due_pending now d). reminder_medication d r \<noteq> None"
  shows "(case check_reminders e now d of (n, d', ef) \<Rightarrow>
            check_reminders e now d' = (0, d', [])
            \<and> rem_id ` set (due_pending now' d') \<inter> rem_id ` set (due_pending now d) = {})
       \<and> (case stream_pass d of (evs, d') \<Rightarrow> stream_pass d' = ([], d'))"
proof -
  let ?S = "rem_id ` set (due_pending now d)"
  from check_reminders_ok [OF assms, of e] obtain d' ef where
    run: "check_reminders e now d = (length (due_pending now d), d', ef)"
    and rem: "reminders d' = mark ?S DUE (reminders d)"
    by blast
  have "due_pending now d' = []"
    using rem by (rule due_pending_after_tick_empty)
  then have a: "check_reminders e now d' = (0, d', [])"
    by (simp add: check_reminders_def)
  have b: "rem_id ` set (due_pending now' d') \<inter> ?S = {}"
    using rem by (rule due_pending_after_mark)
  have "due_stream (snd (stream_pass d)) = []"
    by (simp add: stream_pass_eq due_stream_after_pass_empty)
  then have c: "stream_pass (snd (stream_pass d)) = ([], snd (stream_pass d))"
    by (simp add: stream_pass_def)
  obtain evs d1 where sp: "stream_pass d = (evs, d1)"
    by (cases "stream_pass d") auto
  from c sp have "stream_pass d1 = ([], d1)" by simp
  with a b sp show ?thesis unfolding run by simp
qed

theorem sequential_callers_deliver_once_witness:
  "due_pending 200 example_db = [reminder2, reminder1]
   \<and> reminder_medication example_db reminder1 = Some warfarin
   \<and> reminder_medication example_db reminder2 = Some vitamin_d
   \<and> check_reminders mock_env 200 (fst (snd (check_reminders mock_env 200 example_db)))
     = (0, fst (snd (check_reminders mock_env 200 example_db)), [])"
proof -
  have q: "due_pending 200 example_db = [reminder2, reminder1]"
    by (simp add: due_pending_def example_db_def reminder1_def reminder2_def)
  have m: "reminder_medication example_db reminder1 = Some warfarin"
          "reminder_medication example_db reminder2 = Some vitamin_d"
    by (simp_all add: reminder_medication_def example_db_def reminder1_def reminder2_def
        warfarin_def vitamin_d_def)
  have h: "\<forall>r\<in>set (due_pending 200 example_db). reminder_medication example_db r \<noteq> None"
    by (simp add: q m)
  from sequential_callers_deliver_once [OF h, of mock_env 200]
  have "check_reminders mock_env 200 (fst (snd (check_reminders mock_env 200 example_db)))
     = (0, fst (snd (check_reminders mock_env 200 example_db)), [])"
    by (simp split: prod.splits)
  with q m show ?thesis by simp
qed

text \<open>
  Processing the first example reminder a second time, as a caller that read it while it
  was PENDING does, raises nothing, writes DUE over DUE, and makes the deliveries of the
  first time again: the email and both pushes.
\<close>

theorem second_processing_redelivers_counterexample:
  "fst (process_reminder mock_env reminder1 (open_session example_db)) = Inr ()
   \<and> fst (process_reminder mock_env reminder1 once_processed) = Inr ()
   \<and> reminders (working once_processed) = [reminder1\<lparr>status := DUE\<rparr>, reminder2]
   \<and> reminders (working (fst (snd (process_reminder mock_env reminder1 once_processed))))
     = [reminder1\<lparr>status := DUE\<rparr>, reminder2]
   \<and> snd (snd (process_reminder mock_env reminder1 once_processed))
     = snd (snd (process_reminder mock_env reminder1 (open_session example_db)))
   \<and> Logged ''Email notification sent to alice@example.org''
       \<in> set (snd (snd (process_reminder mock_env reminder1 once_processed)))
   \<and> WebPush ''https://push.example/phone'' ''K1'' ''S1''
        (JObj (push_payload (push_title warfarin) (push_body warfarin) None
                 (Some ''/medications'') (Some ''med-1'')))
       \<in> set (snd (snd (process_reminder mock_env reminder1 once_processed)))"
  unfolding once_processed_def by code_simp

subsection \<open>Email failure and the other channel\<close>

lemma push_each_smtp_relay: "push_each (e\<lparr>smtp_relay := x\<rparr>) m subs = push_each e m subs"
  by (induction subs) simp_all

lemma send_push_to_user_smtp_relay:
  "send_push_to_user (e\<lparr>smtp_relay := x\<rparr>) s u m = send_push_to_user e s u m"
  unfolding send_push_to_user_def push_each_smtp_relay by (rule refl)

text \<open>
  C6. Take a reminder whose medication and user exist, and let the push fan-out on the
  session with DUE written give the session \<open>s'\<close> and the effects \<open>push_effects\<close>.
  Then whatever the SMTP relay does, \<^verbatim>\<open>_process_reminder\<close> returns normally with that same
  session \<open>s'\<close>, in which the reminder has status DUE, and with the effects of the email
  block followed by those same \<open>push_effects\<close>. When \<^verbatim>\<open>send_email\<close> raises
  \<^verbatim>\<open>EmailDeliveryError\<close>, the email block is the effects of the send followed by the
  logged failure, and nothing else changes.
\<close>

theorem email_failure_is_isolated:
  assumes "reminder_medication (working s) r = Some m"
      and "medication_user (working s) m = Some u"
  shows "(case send_push_to_user e (s\<lparr>working := set_status (rem_id r) DUE (working s)\<rparr>) u m of
            (push_count, s', push_effects) \<Rightarrow>
              process_reminder (e\<lparr>smtp_relay := relay\<rparr>) r s
                = (Inr (), s', notify_by_email (e\<lparr>smtp_relay := relay\<rparr>) u m @ push_effects)
              \<and> reminders (working s') = mark {rem_id r} DUE (reminders (working s)))
       \<and> (\<forall>addr err ef.
             email_notifications u \<and> email u = Some addr \<and> addr \<noteq> []
             \<and> send_email (smtp_config e) relay addr (email_subject m) (build_email_body m)
                 = (Inl err, ef)
             \<longrightarrow> notify_by_email (e\<lparr>smtp_relay := relay\<rparr>) u m
                 = ef @ [Logged (''Failed to send email: '' @ str_email_error err)])"
proof -
  let ?s1 = "s\<lparr>working := set_status (rem_id r) DUE (working s)\<rparr>"
  obtain c s' p where sp: "send_push_to_user e ?s1 u m = (c, s', p)"
    by (cases "send_push_to_user e ?s1 u m") auto
  have a: "process_reminder (e\<lparr>smtp_relay := relay\<rparr>) r s
                = (Inr (), s', notify_by_email (e\<lparr>smtp_relay := relay\<rparr>) u m @ p)"
    using assms sp by (simp add: process_reminder_def Let_def send_push_to_user_smtp_relay)
  have b: "reminders (working s') = mark {rem_id r} DUE (reminders (working s))"
    using send_push_to_user_frame(1) [OF sp] by (simp add: reminders_set_status)
  have c: "\<forall>addr err ef.
             email_notifications u \<and> email u = Some addr \<and> addr \<noteq> []
             \<and> send_email (smtp_config e) relay addr (email_subject m) (build_email_body m)
                 = (Inl err, ef)
             \<longrightarrow> notify_by_email (e\<lparr>smtp_relay := relay\<rparr>) u m
                 = ef @ [Logged (''Failed to send email: '' @ str_email_error err)]"
    by (simp add: notify_by_email_def)
  from a b c show ?thesis unfolding sp by simp
qed

theorem email_failure_is_isolated_witness:
  "reminder_medication (working (open_session example_db)) reminder1 = Some warfarin
   \<and> medication_user (working (open_session example_db)) warfarin = Some alice
   \<and> fst (send_email with_smtp relay_down ''alice@example.org''
             (email_subject warfarin) (build_email_body warfarin))
     = Inl (EmailDeliveryError ''Failed to deliver email to alice@example.org''
              (Some ''Connection refused''))
   \<and> fst (process_reminder (smtp_env\<lparr>smtp_relay := relay_down\<rparr>) reminder1
             (open_session example_db)) = Inr ()
   \<and> reminders (working (fst (snd (process_reminder (smtp_env\<lparr>smtp_relay := relay_down\<rparr>)
                                      reminder1 (open_session example_db)))))
     = mark {rem_id reminder1} DUE (reminders (working (open_session example_db)))"
proof -
  have a: "reminder_medication (working (open_session example_db)) reminder1 = Some warfarin"
    by code_simp
  have b: "medication_user (working (open_session example_db)) warfarin = Some alice"
    by code_simp
  have c: "fst (send_email with_smtp relay_down ''alice@example.org''
             (email_subject warfarin) (build_email_body warfarin))
     = Inl (EmailDeliveryError ''Failed to deliver email to alice@example.org''
              (Some ''Connection refused''))"
    by code_simp
  from email_failure_is_isolated [OF a b, where e = smtp_env and relay = relay_down]
  have "fst (process_reminder (smtp_env\<lparr>smtp_relay := relay_down\<rparr>) reminder1
             (open_session example_db)) = Inr ()
   \<and> reminders (working (fst (snd (process_reminder (smtp_env\<lparr>smtp_relay := relay_down\<rparr>)
                                      reminder1 (open_session example_db)))))
     = mark {rem_id reminder1} DUE (reminders (working (open_session example_db)))"
    by (simp split: prod.splits)
  with a b c show ?thesis by simp
qed

subsection \<open>Push fan-out and the registry\<close>

lemma str_in_append_left: "str_in p s \<Longrightarrow> str_in p (a @ s)"
  by (induction a) simp_all

lemma lower_append: "lower (a @ b) = lower a @ lower b"
  by (simp add: lower_def)

lemma looks_expired_gone:
  "looks_expired (new_PushNotificationError ep (Some ''Subscription expired''))"
  "looks_expired (new_PushNotificationError ep (Some ''Subscription not found''))"
proof -
  have a: "str_in ''expired'' (lower '' | Details: Subscription expired'')" by code_simp
  have b: "str_in ''not found'' (lower '' | Details: Subscription not found'')" by code_simp
  have sa: "str_push_error (new_PushNotificationError ep (Some ''Subscription expired''))
      = (''Failed to send push to '' @ take 50 ep @ ''...'') @ '' | Details: Subscription expired''"
    by (simp add: new_PushNotificationError_def str_message_def)
  have sb: "str_push_error (new_PushNotificationError ep (Some ''Subscription not found''))
      = (''Failed to send push to '' @ take 50 ep @ ''...'') @ '' | Details: Subscription not found''"
    by (simp add: new_PushNotificationError_def str_message_def)
  show "looks_expired (new_PushNotificationError ep (Some ''Subscription expired''))"
    unfolding looks_expired_def sa lower_append
    using str_in_append_left [OF a] by blast
  show "looks_expired (new_PushNotificationError ep (Some ''Subscription not found''))"
    unfolding looks_expired_def sb lower_append
    using str_in_append_left [OF b] by blast
qed

text \<open>
  The fan-out when the push service reports subscription \<open>k\<close> as gone (404 or 410) and
  delivers to every other one: a request goes out for every subscription, every one but
  \<open>k\<close> counts as a success, and \<open>k\<close> alone is marked as expired.
\<close>

lemma push_each_one_gone:
  assumes "vapid_is_configured (vapid_config e)"
      and "\<exists>msg. push_service e (endpoint k) (p256dh_key k) (auth_key k)
                   (push_payload (push_title m) (push_body m) None (Some ''/medications'')
                      (Some (push_tag m)))
                 \<in> {WebPushException (Some 410) msg, WebPushException (Some 404) msg}"
      and "\<forall>s\<in>set subs. s \<noteq> k \<longrightarrow>
             push_service e (endpoint s) (p256dh_key s) (auth_key s)
               (push_payload (push_title m) (push_body m) None (Some ''/medications'')
                  (Some (push_tag m))) = Delivered"
  shows "fst (push_each e m subs) = length (filter (\<lambda>s. s \<noteq> k) subs)
       \<and> fst (snd (push_each e m subs)) = filter (\<lambda>s. s = k) subs
       \<and> (\<forall>s\<in>set subs.
             WebPush (endpoint s) (p256dh_key s) (auth_key s)
               (JObj (push_payload (push_title m) (push_body m) None (Some ''/medications'')
                        (Some (push_tag m))))
             \<in> set (snd (snd (push_each e m subs))))"
  using assms(3)
proof (induction subs)
  case Nil
  show ?case by simp
next
  case (Cons a subs)
  obtain c ex ef where pe: "push_each e m subs = (c, ex, ef)"
    by (cases "push_each e m subs") auto
  from Cons have ih: "c = length (filter (\<lambda>s. s \<noteq> k) subs)" "ex = filter (\<lambda>s. s = k) subs"
    "\<forall>s\<in>set subs.
             WebPush (endpoint s) (p256dh_key s) (auth_key s)
               (JObj (push_payload (push_title m) (push_body m) None (Some ''/medications'')
                        (Some (push_tag m)))) \<in> set ef"
    by (simp_all add: pe)
  show ?case
  proof (cases "a = k")
    case True
    from assms(2) obtain msg where
      "push_service e (endpoint k) (p256dh_key k) (auth_key k)
                   (push_payload (push_title m) (push_body m) None (Some ''/medications'')
                      (Some (push_tag m))) = WebPushException (Some 410) msg
       \<or> push_service e (endpoint k) (p256dh_key k) (auth_key k)
                   (push_payload (push_title m) (push_body m) None (Some ''/medications'')
                      (Some (push_tag m))) = WebPushException (Some 404) msg"
      by auto
    then show ?thesis
      using True assms(1) ih
      by (auto simp: pe send_push_notification_def Let_def looks_expired_gone)
  next
    case False
    with Cons.prems have "push_service e (endpoint a) (p256dh_key a) (auth_key a)
               (push_payload (push_title m) (push_body m) None (Some ''/medications'')
                  (Some (push_tag m))) = Delivered" by simp
    then show ?thesis
      using False assms(1) ih by (auto simp: pe send_push_notification_def Let_def)
  qed
qed


lemma filter_is_distinct: "distinct xs \<Longrightarrow> k \<in> set xs \<Longrightarrow> filter (\<lambda>s. s = k) xs = [k]"
  using filter_key_distinct [of id xs k] by simp

lemma length_filter_other:
  assumes "distinct xs" "k \<in> set xs"
  shows "length (filter (\<lambda>s. s \<noteq> k) xs) = length xs - 1"
proof -
  have "length (filter (\<lambda>s. s = k) xs) + length (filter (\<lambda>s. s \<noteq> k) xs) = length xs"
    using sum_length_filter_compl [of "\<lambda>s. s = k" xs] by simp
  with filter_is_distinct [OF assms] show ?thesis by simp
qed

text \<open>
  The same at the level of \<^verbatim>\<open>_send_push_to_user\<close>, on a registry with pairwise
  different identifiers: the count is one less than the user's subscriptions, \<open>k\<close> is
  removed from the registry and the removal committed, and every other row stays.
\<close>

lemma fan_out_with_one_gone:
  assumes vapid: "vapid_is_configured (vapid_config e)"
      and ids: "distinct (map sub_id (push_subscriptions (working s)))"
      and k: "k \<in> set (get_user_push_subscriptions (working s) (user_id u))"
      and gone: "\<exists>msg. push_service e (endpoint k) (p256dh_key k) (auth_key k)
                   (push_payload (push_title m) (push_body m) None (Some ''/medications'')
                      (Some (push_tag m)))
                 \<in> {WebPushException (Some 410) msg, WebPushException (Some 404) msg}"
      and others: "\<forall>x\<in>set (get_user_push_subscriptions (working s) (user_id u)). x \<noteq> k \<longrightarrow>
             push_service e (endpoint x) (p256dh_key x) (auth_key x)
               (push_payload (push_title m) (push_body m) None (Some ''/medications'')
                  (Some (push_tag m))) = Delivered"
  shows "fst (send_push_to_user e s u m)
           = length (get_user_push_subscriptions (working s) (user_id u)) - 1
       \<and> push_subscriptions (working (fst (snd (send_push_to_user e s u m))))
           = filter (\<lambda>x. x \<noteq> k) (push_subscriptions (working s))
       \<and> length (push_subscriptions (working (fst (snd (send_push_to_user e s u m)))))
           = length (push_subscriptions (working s)) - 1
       \<and> committed (fst (snd (send_push_to_user e s u m)))
           = working (fst (snd (send_push_to_user e s u m)))
       \<and> (\<forall>x\<in>set (get_user_push_subscriptions (working s) (user_id u)).
             WebPush (endpoint x) (p256dh_key x) (auth_key x)
               (JObj (push_payload (push_title m) (push_body m) None (Some ''/medications'')
                        (Some (push_tag m))))
             \<in> set (snd (snd (send_push_to_user e s u m))))"
proof -
  let ?subs = "get_user_push_subscriptions (working s) (user_id u)"
  let ?rows = "push_subscriptions (working s)"
  from ids have drows: "distinct ?rows" by (simp add: distinct_map)
  then have dsubs: "distinct ?subs" by (simp add: get_user_push_subscriptions_def)
  from k have krow: "k \<in> set ?rows" by (simp add: get_user_push_subscriptions_def)
  obtain c ex ef where pe: "push_each e m ?subs = (c, ex, ef)"
    by (cases "push_each e m ?subs") auto
  from push_each_one_gone [OF vapid gone others]
  have c: "c = length (filter (\<lambda>x. x \<noteq> k) ?subs)"
    and ex: "ex = filter (\<lambda>x. x = k) ?subs"
    and ef: "\<forall>x\<in>set ?subs.
             WebPush (endpoint x) (p256dh_key x) (auth_key x)
               (JObj (push_payload (push_title m) (push_body m) None (Some ''/medications'')
                        (Some (push_tag m)))) \<in> set ef"
    by (simp_all add: pe)
  have ex1: "ex = [k]" unfolding ex using dsubs k by (rule filter_is_distinct)
  have c1: "c = length ?subs - 1" unfolding c using dsubs k by (rule length_filter_other)
  from k have ne: "?subs \<noteq> []" by auto
  have run: "send_push_to_user e s u m
      = (c, commit (s\<lparr>working := delete_subscription k (working s)\<rparr>), ef)"
    using ne by (simp add: send_push_to_user_def Let_def pe ex1)
  have "\<And>x. x \<in> set ?rows \<Longrightarrow> (sub_id x \<noteq> sub_id k) = (x \<noteq> k)"
  proof -
    fix x assume "x \<in> set ?rows"
    with ids krow show "(sub_id x \<noteq> sub_id k) = (x \<noteq> k)"
      by (auto simp: distinct_map dest: inj_onD)
  qed
  then have del: "push_subscriptions (delete_subscription k (working s))
      = filter (\<lambda>x. x \<noteq> k) ?rows"
    by (simp add: delete_subscription_def cong: filter_cong)
  have len: "length (filter (\<lambda>x. x \<noteq> k) ?rows) = length ?rows - 1"
    using drows krow by (rule length_filter_other)
  from c1 del len ef show ?thesis by (simp add: run commit_def)
qed

lemma fan_out_with_one_gone_example:
  "fst (send_push_to_user gone_env (open_session example_db) alice warfarin) = 1
   \<and> push_subscriptions
       (working (fst (snd (send_push_to_user gone_env (open_session example_db) alice warfarin))))
     = [phone, tablet]"
proof -
  have v: "vapid_is_configured (vapid_config gone_env)" by code_simp
  have i: "distinct (map sub_id (push_subscriptions (working (open_session example_db))))"
    by code_simp
  have subs: "get_user_push_subscriptions (working (open_session example_db)) (user_id alice)
      = [phone, laptop]"
    by code_simp
  have k: "laptop \<in> set (get_user_push_subscriptions (working (open_session example_db))
                            (user_id alice))"
    by (simp add: subs)
  have g: "push_service gone_env (endpoint laptop) (p256dh_key laptop) (auth_key laptop)
                   (push_payload (push_title warfarin) (push_body warfarin) None
                      (Some ''/medications'') (Some (push_tag warfarin)))
             = WebPushException (Some 410) ''Push failed: 410 Gone''"
    by (simp add: gone_env_def laptop_gone_def laptop_def)
  then have gone: "\<exists>msg. push_service gone_env (endpoint laptop) (p256dh_key laptop)
                   (auth_key laptop)
                   (push_payload (push_title warfarin) (push_body warfarin) None
                      (Some ''/medications'') (Some (push_tag warfarin)))
                 \<in> {WebPushException (Some 410) msg, WebPushException (Some 404) msg}"
    by blast
  have o: "\<forall>x\<in>set (get_user_push_subscriptions (working (open_session example_db))
                       (user_id alice)). x \<noteq> laptop \<longrightarrow>
             push_service gone_env (endpoint x) (p256dh_key x) (auth_key x)
               (push_payload (push_title warfarin) (push_body warfarin) None
                  (Some ''/medications'') (Some (push_tag warfarin))) = Delivered"
    by (simp add: subs gone_env_def laptop_gone_def phone_def)
  have rows: "filter (\<lambda>x. x \<noteq> laptop) (push_subscriptions (working (open_session example_db)))
      = [phone, tablet]"
    by (simp add: open_session_def example_db_def phone_def laptop_def tablet_def)
  from fan_out_with_one_gone [OF v i k gone o] subs rows show ?thesis by simp
qed

text \<open>
  The branches for 410 and 404 are taken only when the response object of the exception
  is true in the test \<^verbatim>\<open>e.response and ...\<close>. When it is not, a 410 goes to the generic
  branch with the text of the exception, and here, where that text holds neither
  "expired" nor "not found", the subscription stays in the registry.
\<close>

lemma gone_with_false_response_is_kept:
  "fst (send_push_to_user unread_env (open_session example_db) alice warfarin) = 1
   \<and> push_subscriptions
       (working (fst (snd (send_push_to_user unread_env (open_session example_db)
                             alice warfarin))))
     = [phone, laptop, tablet]"
  by code_simp

text \<open>
  C4 on the code. The laptop subscription of the example store meets a transport error
  that is not a 404 or a 410: the TLS certificate of the push service has expired. The
  error's message holds the word "expired", so the \<^verbatim>\<open>except\<close> clause of the
  fan-out takes the subscription for an expired one: it is deleted from the registry and
  the deletion committed, where the claim has a transport error like this one delete
  nothing. The phone still got its push.
\<close>

theorem transient_push_error_deletes_subscription:
  "push_service certificate_env ''https://push.example/laptop'' ''K2'' ''S2''
      (push_payload (push_title warfarin) (push_body warfarin) None (Some ''/medications'')
         (Some ''med-1''))
     = OtherException ''certificate has expired''
   \<and> get_user_push_subscriptions example_db 1 = [phone, laptop]
   \<and> fst (send_push_to_user certificate_env (open_session example_db) alice warfarin) = 1
   \<and> push_subscriptions
       (committed (fst (snd (send_push_to_user certificate_env (open_session example_db)
                               alice warfarin))))
     = [phone, tablet]
   \<and> Logged (''Push notification failed: Failed to send push to ''
              @ ''https://push.example/laptop... | Details: certificate has expired'')
       \<in> set (snd (snd (send_push_to_user certificate_env (open_session example_db)
                           alice warfarin)))"
  by code_simp

end
